theory Spec2Isabelle
  imports Main
begin

section \<open>Strings and characters\<close>

text \<open>
  A Python \<^verbatim>\<open>str\<close> is modelled as a \<^typ>\<open>string\<close>, one \<^typ>\<open>char\<close> per code point.
  The character classes below are the ones Python 3 uses on ASCII text
  (\<^verbatim>\<open>str.isspace\<close> and the \<^verbatim>\<open>\s\<close> of \<^verbatim>\<open>re\<close> agree there: tab to carriage return,
  the four separators 0x1C to 0x1F, and space); code points above 127 are outside the model
  and are treated as caseless symbols.
\<close>

definition is_space :: "char \<Rightarrow> bool" where
  "is_space c = (let n = (of_char c :: nat) in (9 \<le> n \<and> n \<le> 13) \<or> (28 \<le> n \<and> n \<le> 32))"

definition is_upper :: "char \<Rightarrow> bool" where
  "is_upper c = (let n = (of_char c :: nat) in 65 \<le> n \<and> n \<le> 90)"

definition is_lower :: "char \<Rightarrow> bool" where
  "is_lower c = (let n = (of_char c :: nat) in 97 \<le> n \<and> n \<le> 122)"

definition is_digit :: "char \<Rightarrow> bool" where
  "is_digit c = (let n = (of_char c :: nat) in 48 \<le> n \<and> n \<le> 57)"

definition is_alpha :: "char \<Rightarrow> bool" where
  "is_alpha c = (is_upper c \<or> is_lower c)"

text \<open>The class \<^verbatim>\<open>\w\<close>: letters, digits and the underscore.\<close>

definition is_word :: "char \<Rightarrow> bool" where
  "is_word c = (is_alpha c \<or> is_digit c \<or> c = CHR ''_'')"

definition upper_char :: "char \<Rightarrow> char" where
  "upper_char c = (if is_lower c then char_of ((of_char c :: nat) - 32) else c)"

definition lower_char :: "char \<Rightarrow> char" where
  "lower_char c = (if is_upper c then char_of ((of_char c :: nat) + 32) else c)"

definition upper :: "string \<Rightarrow> string" where
  "upper s = map upper_char s"

definition lower :: "string \<Rightarrow> string" where
  "lower s = map lower_char s"

text \<open>\<^verbatim>\<open>str.strip()\<close>: whitespace removed at both ends.\<close>

definition strip :: "string \<Rightarrow> string" where
  "strip s = rev (dropWhile is_space (rev (dropWhile is_space s)))"

text \<open>
  The anchor \<^verbatim>\<open>$\<close> (without \<^verbatim>\<open>re.MULTILINE\<close>) holds at the end of the subject and also just
  before a newline that is its last character. The argument is the text that is left.
\<close>

definition at_eol :: "string \<Rightarrow> bool" where
  "at_eol r = (r = [] \<or> r = [CHR 0x0A])"

section \<open>Ticker normalisation\<close>

text \<open>
  \<^verbatim>\<open>re.sub(r'^(CVE|TSE|...):', '', ticker, flags=re.IGNORECASE)\<close>: the alternatives are
  tried in order at position 0 only; the first one that is followed by a colon is removed.
\<close>

fun sub_prefix :: "string list \<Rightarrow> string \<Rightarrow> string" where
  "sub_prefix [] s = s"
| "sub_prefix (p # ps) s =
     (if upper (take (length p + 1) s) = p @ '':'' then drop (length p + 1) s
      else sub_prefix ps s)"

text \<open>
  \<^verbatim>\<open>\.(V|TO|...)$\<close> tried at the head of the subject: a dot, the first alternative (compared
  without case) after which \<^verbatim>\<open>$\<close> holds. The result is the text after the match.
\<close>

fun match_suffix_at :: "string list \<Rightarrow> string \<Rightarrow> string option" where
  "match_suffix_at [] s = None"
| "match_suffix_at (c # cs) s =
     (if upper (take (length c + 1) s) = ''.'' @ c \<and> at_eol (drop (length c + 1) s)
      then Some (drop (length c + 1) s)
      else match_suffix_at cs s)"

text \<open>
  \<^verbatim>\<open>re.sub(r'\.(V|TO|...)$', '', ticker, flags=re.IGNORECASE)\<close>: the subject is scanned from
  the left and the leftmost match is removed. What follows a match is empty or a lone
  newline, where the pattern cannot match again.
\<close>

fun sub_suffix :: "string list \<Rightarrow> string \<Rightarrow> string" where
  "sub_suffix cs [] = []"
| "sub_suffix cs (x # xs) =
     (case match_suffix_at cs (x # xs) of
        Some rest \<Rightarrow> rest
      | None \<Rightarrow> x # sub_suffix cs xs)"

text \<open>\<^verbatim>\<open>re.sub(r'[.\-_]', '', ticker)\<close>.\<close>

definition remove_punct :: "string \<Rightarrow> string" where
  "remove_punct s = filter (\<lambda>c. c \<noteq> CHR ''.'' \<and> c \<noteq> CHR ''-'' \<and> c \<noteq> CHR ''_'') s"

definition ticker_prefixes :: "string list" where
  "ticker_prefixes = [''CVE'', ''TSE'', ''TSX'', ''TSXV'', ''CSE'', ''CNSX'', ''NYSE'', ''NASDAQ'', ''OTC'']"

definition ticker_suffixes :: "string list" where
  "ticker_suffixes = [''V'', ''TO'', ''CN'', ''T'', ''VN'', ''WT'']"

definition ticker_prefixes2 :: "string list" where
  "ticker_prefixes2 = [''CVE'', ''TSE'', ''TSX'', ''TSXV'', ''CSE'', ''CNSX'', ''NYSE'', ''NASDAQ'', ''OTC'', ''NEO'']"

definition ticker_suffixes2 :: "string list" where
  "ticker_suffixes2 = [''V'', ''TO'', ''CN'', ''T'', ''VN'', ''WT'', ''CSE'', ''NEO'']"

text \<open>\<^verbatim>\<open>str.endswith\<close>.\<close>

definition endswith :: "string \<Rightarrow> string \<Rightarrow> bool" where
  "endswith s suf = (length suf \<le> length s \<and> drop (length s - length suf) s = suf)"

text \<open>
  \<^verbatim>\<open>normalize_ticker\<close> of \<^verbatim>\<open>mapping_script.py\<close>. The argument is \<^verbatim>\<open>Optional[str]\<close>;
  \<^verbatim>\<open>not ticker\<close> holds for \<^verbatim>\<open>None\<close> and for the empty string.
\<close>

definition normalize_ticker :: "string option \<Rightarrow> string option" where
  "normalize_ticker t =
     (case t of
        None \<Rightarrow> None
      | Some ticker \<Rightarrow>
          if ticker = [] then None
          else if endswith ticker ''.CN''
            then Some (upper (strip (take (length ticker - 3) ticker)))
          else Some (upper (strip (remove_punct
                 (sub_suffix ticker_suffixes (sub_prefix ticker_prefixes ticker))))))"

text \<open>\<^verbatim>\<open>normalize_ticker\<close> of \<^verbatim>\<open>mapping_script2.py\<close>.\<close>

definition normalize_ticker2 :: "string option \<Rightarrow> string option" where
  "normalize_ticker2 t =
     (case t of
        None \<Rightarrow> None
      | Some ticker \<Rightarrow>
          if ticker = [] then None
          else Some (upper (strip (remove_punct
                 (sub_suffix ticker_suffixes2 (sub_prefix ticker_prefixes2 ticker))))))"

section \<open>Name normalisation\<close>

text \<open>
  A suffix pattern \<^verbatim>\<open>\s+inc\.?$\<close> is the pair of its literal and its optional last
  character: \<open>(''inc'', Some CHR ''.'')\<close>; \<^verbatim>\<open>\s+limited$\<close> is \<open>(''limited'', None)\<close>.
  Tried at the head of the subject: a whitespace character, the rest of the whitespace run
  (a shorter run cannot be followed by the literal, which starts with a letter), the literal
  compared without case, then the optional character if \<^verbatim>\<open>$\<close> holds after it, otherwise
  \<^verbatim>\<open>$\<close> directly. The result is the text after the match.
\<close>

fun match_name_suffix_at :: "string \<times> char option \<Rightarrow> string \<Rightarrow> string option" where
  "match_name_suffix_at (w, opt) [] = None"
| "match_name_suffix_at (w, opt) (c # cs) =
     (if \<not> is_space c then None
      else let r = dropWhile is_space cs in
        if lower (take (length w) r) \<noteq> w then None
        else let r' = drop (length w) r in
          (case opt of
             None \<Rightarrow> (if at_eol r' then Some r' else None)
           | Some oc \<Rightarrow>
               (case r' of
                  [] \<Rightarrow> Some []
                | d # ds \<Rightarrow>
                    if lower_char d = oc \<and> at_eol ds then Some ds
                    else if at_eol r' then Some r'
                    else None)))"

text \<open>
  \<^verbatim>\<open>re.sub(suffix, '', name, flags=re.IGNORECASE)\<close>: the leftmost match is removed; what
  follows a match is empty or a lone newline, where no suffix pattern matches again.
\<close>

fun sub_name_suffix :: "string \<times> char option \<Rightarrow> string \<Rightarrow> string" where
  "sub_name_suffix p [] = []"
| "sub_name_suffix p (x # xs) =
     (case match_name_suffix_at p (x # xs) of
        Some rest \<Rightarrow> rest
      | None \<Rightarrow> x # sub_name_suffix p xs)"

text \<open>\<^verbatim>\<open>re.sub(r'[^\w\s]', ' ', name)\<close>.\<close>

definition blank_specials :: "string \<Rightarrow> string" where
  "blank_specials s = map (\<lambda>c. if is_word c \<or> is_space c then c else CHR '' '') s"

text \<open>\<^verbatim>\<open>re.sub(r'\s+', ' ', name)\<close>: every maximal whitespace run becomes one space.\<close>

function collapse_ws :: "string \<Rightarrow> string" where
  "collapse_ws [] = []"
| "collapse_ws (c # cs) =
     (if is_space c then CHR '' '' # collapse_ws (dropWhile is_space cs)
      else c # collapse_ws cs)"
  by pat_completeness auto
termination
  by (relation "measure length") (auto simp: le_imp_less_Suc length_dropWhile_le)

definition name_suffixes :: "(string \<times> char option) list" where
  "name_suffixes =
     [(''inc'', Some CHR ''.''), (''ltd'', Some CHR ''.''), (''limited'', None),
      (''corp'', Some CHR ''.''), (''corporation'', None), (''plc'', None), (''llc'', None),
      (''sa'', None), (''ag'', None), (''mining'', None), (''mines'', None),
      (''resources'', None), (''minerals'', None), (''gold'', None), (''silver'', None),
      (''metals'', None), (''exploration'', None)]"

definition name_suffixes2 :: "(string \<times> char option) list" where
  "name_suffixes2 =
     name_suffixes @
     [(''venture'', Some CHR ''s''), (''holding'', Some CHR ''s''), (''group'', None),
      (''international'', None)]"

text \<open>
  The body shared by the two \<^verbatim>\<open>normalize_name\<close>: lower-case, one pass over the suffix list
  in order, special characters to spaces, whitespace collapsed, stripped.
\<close>

definition normalize_with :: "(string \<times> char option) list \<Rightarrow> string option \<Rightarrow> string" where
  "normalize_with sufs n =
     (case n of
        None \<Rightarrow> []
      | Some name \<Rightarrow>
          if name = [] then []
          else strip (collapse_ws (blank_specials (fold sub_name_suffix sufs (lower name)))))"

text \<open>\<^verbatim>\<open>normalize_name\<close> of \<^verbatim>\<open>mapping_script.py\<close>.\<close>

definition normalize_name :: "string option \<Rightarrow> string" where
  "normalize_name = normalize_with name_suffixes"

text \<open>\<^verbatim>\<open>normalize_name\<close> of \<^verbatim>\<open>mapping_script2.py\<close>, with four more suffix patterns.\<close>

definition normalize_name2 :: "string option \<Rightarrow> string" where
  "normalize_name2 = normalize_with name_suffixes2"

section \<open>Alias expansion\<close>

text \<open>
  \<^verbatim>\<open>\(([^)]+)\)\<close> tried at the head of the subject: an opening parenthesis, the longest run of
  characters other than the closing one, which must not be empty, and a closing parenthesis.
  The result is the group and the text after the match.
\<close>

fun match_paren_at :: "string \<Rightarrow> (string \<times> string) option" where
  "match_paren_at [] = None"
| "match_paren_at (c # cs) =
     (if c \<noteq> CHR ''('' then None
      else let body = takeWhile (\<lambda>x. x \<noteq> CHR '')'') cs;
               rest = dropWhile (\<lambda>x. x \<noteq> CHR '')'') cs
           in if body \<noteq> [] \<and> rest \<noteq> [] then Some (body, tl rest) else None)"

text \<open>\<^verbatim>\<open>re.sub(r'\([^)]+\)', '', name)\<close>: every match, left to right, is removed.\<close>

function sub_paren :: "string \<Rightarrow> string" where
  "sub_paren [] = []"
| "sub_paren (c # cs) =
     (case match_paren_at (c # cs) of
        Some (body, rest) \<Rightarrow> sub_paren rest
      | None \<Rightarrow> c # sub_paren cs)"
  by pat_completeness auto
termination
  by (relation "measure length")
     (auto simp: Let_def le_imp_less_Suc length_dropWhile_le less_Suc_eq_le
           intro: le_trans [OF diff_le_self length_dropWhile_le] split: if_splits)

text \<open>\<^verbatim>\<open>re.findall(r'\(([^)]+)\)', name)\<close>: the groups of the same matches.\<close>

function findall_paren :: "string \<Rightarrow> string list" where
  "findall_paren [] = []"
| "findall_paren (c # cs) =
     (case match_paren_at (c # cs) of
        Some (body, rest) \<Rightarrow> body # findall_paren rest
      | None \<Rightarrow> findall_paren cs)"
  by pat_completeness auto
termination
  by (relation "measure length")
     (auto simp: Let_def le_imp_less_Suc length_dropWhile_le less_Suc_eq_le
           intro: le_trans [OF diff_le_self length_dropWhile_le] split: if_splits)

text \<open>\<^verbatim>\<open>str.split()\<close>: the maximal runs of characters that are not whitespace.\<close>

function split_ws :: "string \<Rightarrow> string list" where
  "split_ws s =
     (case dropWhile is_space s of
        [] \<Rightarrow> []
      | c # cs \<Rightarrow> (c # takeWhile (\<lambda>x. \<not> is_space x) cs)
                 # split_ws (dropWhile (\<lambda>x. \<not> is_space x) cs))"
  by pat_completeness auto
termination
proof (relation "measure length", simp)
  fix s :: string and c cs
  assume a: "dropWhile is_space s = c # cs"
  have "length (dropWhile (\<lambda>x. \<not> is_space x) cs) \<le> length cs"
    by (rule length_dropWhile_le)
  moreover have "length (c # cs) \<le> length s"
    using length_dropWhile_le [of is_space s] a by simp
  ultimately show "(dropWhile (\<lambda>x. \<not> is_space x) cs, s) \<in> measure length"
    by simp
qed

declare split_ws.simps [simp del]

text \<open>\<^verbatim>\<open>sub in s\<close> on strings.\<close>

fun contains :: "string \<Rightarrow> string \<Rightarrow> bool" where
  "contains sub [] = (sub = [])"
| "contains sub (c # cs) = (take (length sub) (c # cs) = sub \<or> contains sub cs)"

text \<open>\<^verbatim>\<open>s.replace(old, new)\<close> for a non-empty \<open>old\<close>: occurrences are replaced left to right
  without overlap.\<close>

function replace :: "string \<Rightarrow> string \<Rightarrow> string \<Rightarrow> string" where
  "replace old new [] = []"
| "replace old new (c # cs) =
     (if old \<noteq> [] \<and> take (length old) (c # cs) = old
      then new @ replace old new (drop (length old) (c # cs))
      else c # replace old new cs)"
  by pat_completeness auto
termination
  by (relation "measure (\<lambda>(old, new, s). length s)") (auto simp: neq_Nil_conv)

text \<open>
  The four blocks of \<^verbatim>\<open>extract_company_aliases\<close>, each a function on the list \<^verbatim>\<open>aliases\<close>
  built so far. First the version without the parentheses.
\<close>

definition paren_aliases :: "string \<Rightarrow> string list \<Rightarrow> string list" where
  "paren_aliases name aliases =
     (if CHR ''('' \<in> set name \<and> CHR '')'' \<in> set name
      then (let clean_name = strip (sub_paren name)
            in if clean_name \<noteq> [] then aliases @ [clean_name] else aliases)
      else aliases)"

text \<open>In \<^verbatim>\<open>mapping_script2.py\<close> the contents of the parentheses are added too.\<close>

definition paren_aliases2 :: "string \<Rightarrow> string list \<Rightarrow> string list" where
  "paren_aliases2 name aliases =
     (if CHR ''('' \<in> set name \<and> CHR '')'' \<in> set name
      then (let clean_name = strip (sub_paren name);
                aliases = (if clean_name \<noteq> [] then aliases @ [clean_name] else aliases);
                matches = findall_paren name
            in aliases @ matches)
      else aliases)"

text \<open>The initials: the first character of every word, in upper case.\<close>

definition abbrev_aliases :: "string \<Rightarrow> string list \<Rightarrow> string list" where
  "abbrev_aliases name aliases =
     (let words = split_ws name
      in if length words > 1
         then (let abbrev = map (\<lambda>w. upper_char (hd w)) (filter (\<lambda>w. w \<noteq> []) words)
               in if length abbrev > 1 then aliases @ [abbrev] else aliases)
         else aliases)"

text \<open>In \<^verbatim>\<open>mapping_script2.py\<close> only the words that start with a letter count.\<close>

definition abbrev_aliases2 :: "string \<Rightarrow> string list \<Rightarrow> string list" where
  "abbrev_aliases2 name aliases =
     (let words = split_ws name
      in if length words > 1
         then (let abbrev = map (\<lambda>w. upper_char (hd w))
                              (filter (\<lambda>w. w \<noteq> [] \<and> is_alpha (hd w)) words)
               in if length abbrev > 1 then aliases @ [abbrev] else aliases)
         else aliases)"

definition amp_aliases :: "string \<Rightarrow> string list \<Rightarrow> string list" where
  "amp_aliases name aliases =
     (if CHR ''&'' \<in> set name then aliases @ [replace ''&'' ''and'' name] else aliases)"

definition and_aliases :: "string \<Rightarrow> string list \<Rightarrow> string list" where
  "and_aliases name aliases =
     (if contains '' and '' name then aliases @ [replace '' and '' '' & '' name] else aliases)"

text \<open>In \<^verbatim>\<open>mapping_script2.py\<close> the test is made on the lower-cased name.\<close>

definition and_aliases2 :: "string \<Rightarrow> string list \<Rightarrow> string list" where
  "and_aliases2 name aliases =
     (if contains '' and '' (lower name)
      then aliases @ [replace '' and '' '' & '' name] else aliases)"

text \<open>
  \<^verbatim>\<open>extract_company_aliases\<close> of \<^verbatim>\<open>mapping_script.py\<close>. The source returns
  \<^verbatim>\<open>list(set(aliases))\<close>, whose order Python leaves open; the model keeps the order of
  first insertion and drops the duplicates.
\<close>

definition extract_company_aliases :: "string \<Rightarrow> string list" where
  "extract_company_aliases name =
     remdups (and_aliases name (amp_aliases name (abbrev_aliases name
       (paren_aliases name [name]))))"

text \<open>\<^verbatim>\<open>extract_company_aliases\<close> of \<^verbatim>\<open>mapping_script2.py\<close>.\<close>

definition extract_company_aliases2 :: "string \<Rightarrow> string list" where
  "extract_company_aliases2 name =
     remdups (and_aliases2 name (amp_aliases name (abbrev_aliases2 name
       (paren_aliases2 name [name]))))"

section \<open>Data model\<close>

text \<open>
  The dataclasses \<^verbatim>\<open>Company\<close>, \<^verbatim>\<open>GoldstockCompany\<close> and \<^verbatim>\<open>Mapping\<close>. Fields that share a
  name in the source carry a prefix here. \<^verbatim>\<open>exchange\<close> exists in \<^verbatim>\<open>mapping_script2.py\<close>
  only; no function modelled here reads it. Statuses and methods are the source's strings.
  A confidence is a Python integer: the scores of the fuzzy scorer and the constants
  0, 95 and 100.
\<close>

record company =
  company_id :: int
  company_name :: string
  tsx_code :: "string option"

record goldstock_company =
  goldstock_id :: string
  gs_company_name :: string
  ticker :: "string option"
  aliases :: "string list"
  exchange :: "string option"

record mapping =
  m_company_id :: int
  m_company_name :: string
  m_tsx_code :: "string option"
  m_goldstock_id :: "string option"
  goldstock_name :: "string option"
  match_status :: string
  confidence_score :: int
  match_method :: string

text \<open>An entry of the table \<^verbatim>\<open>known_mappings\<close> that \<^verbatim>\<open>main\<close> builds.\<close>

record known =
  k_goldstock_id :: string
  k_goldstock_name :: string
  k_confidence_score :: int

datatype error = ValueError | ZeroDivisionError | TypeError | KeyError

text \<open>Truth value of an \<^verbatim>\<open>Optional[str]\<close>: neither \<^verbatim>\<open>None\<close> nor empty.\<close>

definition truthy :: "string option \<Rightarrow> bool" where
  "truthy x = (x \<noteq> None \<and> x \<noteq> Some [])"

section \<open>Lookup tables\<close>

text \<open>One round of the loop that fills \<^verbatim>\<open>gs_by_ticker\<close>; a later record replaces an
  earlier one under the same key.\<close>

definition add_ticker ::
  "(string option \<Rightarrow> string option) \<Rightarrow> goldstock_company \<Rightarrow>
   (string \<rightharpoonup> goldstock_company) \<Rightarrow> (string \<rightharpoonup> goldstock_company)" where
  "add_ticker norm gs d =
     (if truthy (ticker gs)
      then (case norm (ticker gs) of
              None \<Rightarrow> d
            | Some normalized \<Rightarrow> if normalized \<noteq> [] then d(normalized \<mapsto> gs) else d)
      else d)"

text \<open>One round of the loop that fills \<^verbatim>\<open>gs_by_normalized_name\<close>: the name, then every alias.\<close>

definition add_names ::
  "(string option \<Rightarrow> string) \<Rightarrow> goldstock_company \<Rightarrow>
   (string \<rightharpoonup> goldstock_company) \<Rightarrow> (string \<rightharpoonup> goldstock_company)" where
  "add_names norm gs d =
     (let normalized = norm (Some (gs_company_name gs));
          d = (if normalized \<noteq> [] then d(normalized \<mapsto> gs) else d)
      in fold (\<lambda>alias d.
                 let normalized_alias = norm (Some alias)
                 in if normalized_alias \<noteq> [] then d(normalized_alias \<mapsto> gs) else d)
              (aliases gs) d)"

definition gs_by_ticker :: "goldstock_company list \<Rightarrow> (string \<rightharpoonup> goldstock_company)" where
  "gs_by_ticker gss = fold (add_ticker normalize_ticker) gss Map.empty"

definition gs_by_normalized_name :: "goldstock_company list \<Rightarrow> (string \<rightharpoonup> goldstock_company)" where
  "gs_by_normalized_name gss = fold (add_names normalize_name) gss Map.empty"

definition gs_by_ticker2 :: "goldstock_company list \<Rightarrow> (string \<rightharpoonup> goldstock_company)" where
  "gs_by_ticker2 gss = fold (add_ticker normalize_ticker2) gss Map.empty"

definition gs_by_normalized_name2 :: "goldstock_company list \<Rightarrow> (string \<rightharpoonup> goldstock_company)" where
  "gs_by_normalized_name2 gss = fold (add_names normalize_name2) gss Map.empty"

section \<open>Fuzzy selection\<close>

text \<open>
  Modelled from the spec: \<^verbatim>\<open>process.extractOne\<close> and \<^verbatim>\<open>fuzz.token_sort_ratio\<close> belong to the
  \<^verbatim>\<open>fuzzywuzzy\<close> package, which is not under \<^verbatim>\<open>src/\<close>. The similarity is a parameter
  \<open>scorer\<close>; the selection follows the spec's words: every candidate is scored against the
  query, those below the floor are dropped, the maximum-scoring one is taken, and the
  first-encountered maximum wins. No candidate left means \<^verbatim>\<open>None\<close>.
\<close>

definition extractOne ::
  "(string \<Rightarrow> string \<Rightarrow> int) \<Rightarrow> string \<Rightarrow> string list \<Rightarrow> int \<Rightarrow> (string \<times> int) option" where
  "extractOne scorer query choices score_cutoff =
     (case filter (\<lambda>(choice, score). score \<ge> score_cutoff)
                  (map (\<lambda>choice. (choice, scorer query choice)) choices) of
        [] \<Rightarrow> None
      | x # xs \<Rightarrow> Some (foldl (\<lambda>best y. if snd y > snd best then y else best) x xs))"

text \<open>\<^verbatim>\<open>list.index\<close>: the first position of a value, \<^verbatim>\<open>ValueError\<close> (here \<open>None\<close>) without one.\<close>

fun index_of :: "'a \<Rightarrow> 'a list \<Rightarrow> nat option" where
  "index_of x [] = None"
| "index_of x (y # ys) = (if y = x then Some 0 else map_option Suc (index_of x ys))"

section \<open>The resolution tiers of \<^verbatim>\<open>mapping_script.py\<close>\<close>

definition known_tier :: "(int \<rightharpoonup> known) \<Rightarrow> company \<Rightarrow> mapping option" where
  "known_tier known_mappings c =
     (case known_mappings (company_id c) of
        None \<Rightarrow> None
      | Some k \<Rightarrow>
          Some \<lparr>m_company_id = company_id c, m_company_name = company_name c,
                m_tsx_code = tsx_code c, m_goldstock_id = Some (k_goldstock_id k),
                goldstock_name = Some (k_goldstock_name k), match_status = ''matched'',
                confidence_score = k_confidence_score k, match_method = ''known_mapping''\<rparr>)"

definition ticker_tier :: "(string \<rightharpoonup> goldstock_company) \<Rightarrow> company \<Rightarrow> mapping option" where
  "ticker_tier by_ticker c =
     (if truthy (tsx_code c)
      then (case normalize_ticker (tsx_code c) of
              None \<Rightarrow> None
            | Some normalized_ticker \<Rightarrow>
                if normalized_ticker \<noteq> []
                then (case by_ticker normalized_ticker of
                        None \<Rightarrow> None
                      | Some match \<Rightarrow>
                          Some \<lparr>m_company_id = company_id c, m_company_name = company_name c,
                                m_tsx_code = tsx_code c, m_goldstock_id = Some (goldstock_id match),
                                goldstock_name = Some (gs_company_name match),
                                match_status = ''matched'', confidence_score = 100,
                                match_method = ''exact_ticker''\<rparr>)
                else None)
      else None)"

definition name_tier :: "(string \<rightharpoonup> goldstock_company) \<Rightarrow> company \<Rightarrow> mapping option" where
  "name_tier by_name c =
     (case by_name (normalize_name (Some (company_name c))) of
        None \<Rightarrow> None
      | Some match \<Rightarrow>
          Some \<lparr>m_company_id = company_id c, m_company_name = company_name c,
                m_tsx_code = tsx_code c, m_goldstock_id = Some (goldstock_id match),
                goldstock_name = Some (gs_company_name match),
                match_status = ''matched'', confidence_score = 95,
                match_method = ''exact_name''\<rparr>)"

definition unmatched_mapping :: "company \<Rightarrow> mapping" where
  "unmatched_mapping c =
     \<lparr>m_company_id = company_id c, m_company_name = company_name c,
      m_tsx_code = tsx_code c, m_goldstock_id = None, goldstock_name = None,
      match_status = ''unmatched'', confidence_score = 0, match_method = ''none''\<rparr>"

text \<open>
  The fuzzy tier and the final choice. \<open>best\<close> holds \<^verbatim>\<open>best_match\<close>, \<^verbatim>\<open>best_score\<close> and
  \<^verbatim>\<open>best_method\<close>, which the source sets together; \<open>None\<close> is their initial state.
  \<^verbatim>\<open>extractOne\<close> is called without a floor, whose default is 0.
\<close>

definition fuzzy_tier ::
  "(string \<Rightarrow> string \<Rightarrow> int) \<Rightarrow> goldstock_company list \<Rightarrow> company \<Rightarrow> mapping" where
  "fuzzy_tier scorer goldstock_companies c =
     (let normalized_name = normalize_name (Some (company_name c));
          all_gs_names = map (\<lambda>gs. (gs_company_name gs, gs)) goldstock_companies;
          best =
            (if normalized_name \<noteq> [] \<and> all_gs_names \<noteq> []
             then (let normalized_gs_names =
                         map (\<lambda>(name, gs). normalize_name (Some name)) all_gs_names
                   in case extractOne scorer normalized_name normalized_gs_names 0 of
                        None \<Rightarrow> None
                      | Some (matched_name, score) \<Rightarrow>
                          (case find (\<lambda>(orig_name, gs).
                                        normalize_name (Some orig_name) = matched_name)
                                     all_gs_names of
                             None \<Rightarrow> None
                           | Some (orig_name, gs) \<Rightarrow>
                               if score \<ge> 80 then Some (gs, score, ''fuzzy_name'') else None))
             else None)
      in case best of
           None \<Rightarrow> unmatched_mapping c
         | Some (best_match, best_score, best_method) \<Rightarrow>
             if best_score \<ge> 80
             then \<lparr>m_company_id = company_id c, m_company_name = company_name c,
                   m_tsx_code = tsx_code c, m_goldstock_id = Some (goldstock_id best_match),
                   goldstock_name = Some (gs_company_name best_match),
                   match_status = (if best_score \<ge> 90 then ''matched'' else ''manual''),
                   confidence_score = best_score, match_method = best_method\<rparr>
             else unmatched_mapping c)"

text \<open>The outcome of one company: the first tier that answers.\<close>

definition match_company ::
  "(string \<Rightarrow> string \<Rightarrow> int) \<Rightarrow> goldstock_company list \<Rightarrow> (int \<rightharpoonup> known) \<Rightarrow>
   company \<Rightarrow> mapping" where
  "match_company scorer goldstock_companies known_mappings c =
     (case known_tier known_mappings c of
        Some m \<Rightarrow> m
      | None \<Rightarrow>
          (case ticker_tier (gs_by_ticker goldstock_companies) c of
             Some m \<Rightarrow> m
           | None \<Rightarrow>
               (case name_tier (gs_by_normalized_name goldstock_companies) c of
                  Some m \<Rightarrow> m
                | None \<Rightarrow> fuzzy_tier scorer goldstock_companies c)))"

section \<open>The resolution of one company in \<^verbatim>\<open>mapping_script2.py\<close>\<close>

text \<open>The local variables of the loop body.\<close>

record vars =
  v_match :: "goldstock_company option"
  v_confidence :: int
  v_status :: string
  v_goldstock_id :: "string option"
  v_goldstock_name :: "string option"
  v_match_method :: string

text \<open>
  The loop body is a chain of four blocks, each guarded by \<^verbatim>\<open>not match\<close>, which holds
  exactly when \<^verbatim>\<open>match\<close> is \<^verbatim>\<open>None\<close>: a \<^verbatim>\<open>GoldstockCompany\<close> defines neither
  \<^verbatim>\<open>__bool__\<close> nor \<^verbatim>\<open>__len__\<close>. Each block is a function on the local variables.
\<close>

definition initial_vars :: vars where
  "initial_vars =
     \<lparr>v_match = None, v_confidence = 0, v_status = ''unmatched'',
      v_goldstock_id = None, v_goldstock_name = None, v_match_method = ''none''\<rparr>"

definition known_step2 :: "(int \<rightharpoonup> known) \<Rightarrow> company \<Rightarrow> vars \<Rightarrow> vars" where
  "known_step2 known_mappings c v =
     (case known_mappings (company_id c) of
        None \<Rightarrow> v
      | Some k \<Rightarrow>
          \<lparr>v_match = Some \<lparr>goldstock_id = k_goldstock_id k,
                            gs_company_name = k_goldstock_name k, ticker = None,
                            aliases = [], exchange = None\<rparr>,
           v_confidence = k_confidence_score k, v_status = ''matched'',
           v_goldstock_id = Some (k_goldstock_id k),
           v_goldstock_name = Some (k_goldstock_name k),
           v_match_method = ''known_mapping''\<rparr>)"

definition ticker_step2 :: "(string \<rightharpoonup> goldstock_company) \<Rightarrow> company \<Rightarrow> vars \<Rightarrow> vars" where
  "ticker_step2 by_ticker c v =
     (let normalized_tsx_code = normalize_ticker2 (tsx_code c)
      in if v_match v = None \<and> truthy normalized_tsx_code
         then (case normalized_tsx_code of
                 None \<Rightarrow> v
               | Some key \<Rightarrow>
                   (case by_ticker key of
                      None \<Rightarrow> v
                    | Some match \<Rightarrow>
                        \<lparr>v_match = Some match, v_confidence = 100, v_status = ''matched'',
                         v_goldstock_id = Some (goldstock_id match),
                         v_goldstock_name = Some (gs_company_name match),
                         v_match_method = ''exact_ticker''\<rparr>))
         else v)"

definition name_step2 :: "(string \<rightharpoonup> goldstock_company) \<Rightarrow> company \<Rightarrow> vars \<Rightarrow> vars" where
  "name_step2 by_name c v =
     (let normalized_company_name = normalize_name2 (Some (company_name c))
      in if v_match v = None
         then (case by_name normalized_company_name of
                 None \<Rightarrow> v
               | Some match \<Rightarrow>
                   \<lparr>v_match = Some match, v_confidence = 95, v_status = ''matched'',
                    v_goldstock_id = Some (goldstock_id match),
                    v_goldstock_name = Some (gs_company_name match),
                    v_match_method = ''exact_name''\<rparr>)
         else v)"

text \<open>The fuzzy block calls \<^verbatim>\<open>extractOne\<close> with the floor 70 and looks the winner up with
  \<^verbatim>\<open>choices.index\<close>, which raises when the value is missing.\<close>

definition fuzzy_step2 ::
  "(string \<Rightarrow> string \<Rightarrow> int) \<Rightarrow> goldstock_company list \<Rightarrow> company \<Rightarrow> vars \<Rightarrow> error + vars" where
  "fuzzy_step2 scorer goldstock_companies c v =
     (let normalized_company_name = normalize_name2 (Some (company_name c))
      in if v_match v = None \<and> normalized_company_name \<noteq> []
         then (let all_gs_names = map (\<lambda>gs. (gs_company_name gs, gs)) goldstock_companies;
                   choices = map (\<lambda>(name, gs). normalize_name2 (Some name)) all_gs_names
               in case extractOne scorer normalized_company_name choices 70 of
                    None \<Rightarrow> Inr v
                  | Some (matched_name, score) \<Rightarrow>
                      (case index_of matched_name choices of
                         None \<Rightarrow> Inl ValueError
                       | Some idx \<Rightarrow>
                           (let match = snd (all_gs_names ! idx)
                            in Inr \<lparr>v_match = Some match, v_confidence = score,
                                    v_status = (if score \<ge> 85 then ''matched'' else ''manual''),
                                    v_goldstock_id = Some (goldstock_id match),
                                    v_goldstock_name = Some (gs_company_name match),
                                    v_match_method = ''fuzzy_name''\<rparr>)))
         else Inr v)"

text \<open>One round of the loop, up to the \<^verbatim>\<open>Mapping\<close> that is appended. The two tables are
  built once before the loop in the source; they depend on the records only.\<close>

definition match_company2 ::
  "(string \<Rightarrow> string \<Rightarrow> int) \<Rightarrow> goldstock_company list \<Rightarrow> (int \<rightharpoonup> known) \<Rightarrow>
   company \<Rightarrow> error + mapping" where
  "match_company2 scorer goldstock_companies known_mappings c =
     (case fuzzy_step2 scorer goldstock_companies c
             (name_step2 (gs_by_normalized_name2 goldstock_companies) c
               (ticker_step2 (gs_by_ticker2 goldstock_companies) c
                 (known_step2 known_mappings c initial_vars))) of
        Inl e \<Rightarrow> Inl e
      | Inr v \<Rightarrow>
          Inr \<lparr>m_company_id = company_id c, m_company_name = company_name c,
               m_tsx_code = tsx_code c, m_goldstock_id = v_goldstock_id v,
               goldstock_name = v_goldstock_name v, match_status = v_status v,
               confidence_score = v_confidence v, match_method = v_match_method v\<rparr>)"

section \<open>Persisted state\<close>

text \<open>
  A file is absent, or holds text that \<^verbatim>\<open>json.load\<close> rejects, or holds a value.
  \<^verbatim>\<open>load_cache\<close> and \<^verbatim>\<open>load_checkpoint\<close> share one shape: if the file exists, the parsed
  value, or the default when parsing raises; the default when it does not exist.
\<close>

datatype 'a file_state = Absent | Corrupt | Stored 'a

definition load_json :: "'a \<Rightarrow> 'a file_state \<Rightarrow> 'a" where
  "load_json dflt f = (case f of Absent \<Rightarrow> dflt | Corrupt \<Rightarrow> dflt | Stored v \<Rightarrow> v)"

text \<open>The values of \<^verbatim>\<open>json.load\<close>, with integers for the numbers.\<close>

datatype json =
  JNull | JBool bool | JNum int | JStr string | JArr "json list" | JObj "(string \<times> json) list"

definition is_dict :: "json \<Rightarrow> bool" where
  "is_dict j = (case j of JObj kvs \<Rightarrow> True | _ \<Rightarrow> False)"

definition empty_checkpoint :: json where
  "empty_checkpoint = JObj [(''processed_ids'', JArr []), (''mappings'', JArr [])]"

definition load_cache :: "json file_state \<Rightarrow> json" where
  "load_cache f = load_json (JObj []) f"

definition load_checkpoint :: "json file_state \<Rightarrow> json" where
  "load_checkpoint f = load_json empty_checkpoint f"

text \<open>
  What \<^verbatim>\<open>main\<close> does first with the loaded checkpoint, in both scripts:
  \<^verbatim>\<open>args.resume and matcher.checkpoint['processed_ids']\<close>. Subscripting with a string
  gives the value of the key on a dictionary, \<^verbatim>\<open>KeyError\<close> when the key is missing, and
  \<^verbatim>\<open>TypeError\<close> on a list, a number, a string, a boolean or \<^verbatim>\<open>None\<close>; nothing around the
  test catches either.
\<close>

definition subscript :: "json \<Rightarrow> string \<Rightarrow> error + json" where
  "subscript j key =
     (case j of
        JObj kvs \<Rightarrow> (case map_of kvs key of None \<Rightarrow> Inl KeyError | Some v \<Rightarrow> Inr v)
      | _ \<Rightarrow> Inl TypeError)"

text \<open>Truth value of a parsed value.\<close>

definition json_truthy :: "json \<Rightarrow> bool" where
  "json_truthy j =
     (case j of
        JNull \<Rightarrow> False
      | JBool b \<Rightarrow> b
      | JNum n \<Rightarrow> n \<noteq> 0
      | JStr t \<Rightarrow> t \<noteq> []
      | JArr xs \<Rightarrow> xs \<noteq> []
      | JObj kvs \<Rightarrow> kvs \<noteq> [])"

definition resume_guard :: "bool \<Rightarrow> json \<Rightarrow> error + bool" where
  "resume_guard res cp =
     (if res
      then (case subscript cp ''processed_ids'' of
              Inl e \<Rightarrow> Inl e
            | Inr v \<Rightarrow> Inr (json_truthy v))
      else Inr False)"

text \<open>
  The runs below work on the decoded state: the cache as the dictionary from the key
  \<^verbatim>\<open>goldstock_<id>\<close> to a record or \<^verbatim>\<open>None\<close>, in insertion order, and the checkpoint as its
  two lists. Writing a file always succeeds in the model.
\<close>

record checkpoint =
  processed_ids :: "int list"
  mappings :: "mapping list"

record files =
  cache_file :: "(string \<times> goldstock_company option) list file_state"
  checkpoint_file :: "checkpoint file_state"
  output_file :: "mapping list option"

text \<open>
  The state of a run: the files, \<^verbatim>\<open>matcher.cache\<close>, \<^verbatim>\<open>matcher.checkpoint\<close>, and the
  identifiers for which the network was asked, in order.
\<close>

record world = files +
  cache :: "(string \<times> goldstock_company option) list"
  checkpoint :: checkpoint
  requests :: "int list"

text \<open>\<^verbatim>\<open>d[key] = value\<close> on a dictionary kept in insertion order.\<close>

fun dict_set :: "'k \<Rightarrow> 'v \<Rightarrow> ('k \<times> 'v) list \<Rightarrow> ('k \<times> 'v) list" where
  "dict_set k v [] = [(k, v)]"
| "dict_set k v (p # ps) = (if fst p = k then (k, v) # ps else p # dict_set k v ps)"

definition save_cache :: "world \<Rightarrow> world" where
  "save_cache w = w\<lparr>cache_file := Stored (cache w)\<rparr>"

definition save_checkpoint :: "mapping list \<Rightarrow> world \<Rightarrow> world" where
  "save_checkpoint ms w =
     (let cp = \<lparr>processed_ids = map m_company_id ms, mappings = ms\<rparr>
      in w\<lparr>checkpoint := cp, checkpoint_file := Stored cp\<rparr>)"

definition save_mappings :: "mapping list \<Rightarrow> world \<Rightarrow> world" where
  "save_mappings ms w = w\<lparr>output_file := Some ms\<rparr>"

section \<open>The resolution loops\<close>

text \<open>
  \<open>intr n\<close> is the value of the global flag \<^verbatim>\<open>interrupted\<close> at the \<open>n\<close>-th time the loop
  reads it. In \<^verbatim>\<open>mapping_script.py\<close> the three exact tiers leave the round with
  \<^verbatim>\<open>continue\<close>, so only a round that reaches the fuzzy tier can save the progress.
\<close>

fun matching_loop ::
  "(nat \<Rightarrow> bool) \<Rightarrow> (string \<Rightarrow> string \<Rightarrow> int) \<Rightarrow> goldstock_company list \<Rightarrow> (int \<rightharpoonup> known) \<Rightarrow>
   (string \<rightharpoonup> goldstock_company) \<Rightarrow> (string \<rightharpoonup> goldstock_company) \<Rightarrow>
   nat \<Rightarrow> company list \<Rightarrow> mapping list \<Rightarrow> world \<Rightarrow> mapping list \<times> world" where
  "matching_loop intr scorer gss known_mappings by_ticker by_name i [] ms w = (ms, w)"
| "matching_loop intr scorer gss known_mappings by_ticker by_name i (c # cs) ms w =
     (if intr i then (ms, w)
      else case known_tier known_mappings c of
        Some m \<Rightarrow>
          matching_loop intr scorer gss known_mappings by_ticker by_name (Suc i) cs (ms @ [m]) w
      | None \<Rightarrow>
          (case ticker_tier by_ticker c of
             Some m \<Rightarrow>
               matching_loop intr scorer gss known_mappings by_ticker by_name (Suc i) cs
                 (ms @ [m]) w
           | None \<Rightarrow>
               (case name_tier by_name c of
                  Some m \<Rightarrow>
                    matching_loop intr scorer gss known_mappings by_ticker by_name (Suc i) cs
                      (ms @ [m]) w
                | None \<Rightarrow>
                    (let ms' = ms @ [fuzzy_tier scorer gss c];
                         w' = (if length ms' mod 10 = 0
                               then save_mappings ms' (save_checkpoint ms' w) else w)
                     in matching_loop intr scorer gss known_mappings by_ticker by_name
                          (Suc i) cs ms' w'))))"

text \<open>\<^verbatim>\<open>perform_matching\<close> of \<^verbatim>\<open>mapping_script.py\<close>: the tables, the loop, and a last save
  that is made whatever the loop did.\<close>

definition perform_matching ::
  "(nat \<Rightarrow> bool) \<Rightarrow> (string \<Rightarrow> string \<Rightarrow> int) \<Rightarrow> company list \<Rightarrow> goldstock_company list \<Rightarrow>
   (int \<rightharpoonup> known) \<Rightarrow> world \<Rightarrow> mapping list \<times> world" where
  "perform_matching intr scorer companies goldstock_companies known_mappings w =
     (case matching_loop intr scorer goldstock_companies known_mappings
             (gs_by_ticker goldstock_companies) (gs_by_normalized_name goldstock_companies)
             0 companies [] w of
        (ms, w') \<Rightarrow> (ms, save_checkpoint ms (save_mappings ms w')))"

text \<open>
  The loop of \<^verbatim>\<open>mapping_script2.py\<close>. The flag is read at the start and at the end of a
  round; \<open>n\<close> is \<^verbatim>\<open>len(companies)\<close>. The progress is saved every tenth round and in the
  last one.
\<close>

fun matching_loop2 ::
  "(nat \<Rightarrow> bool) \<Rightarrow> (string \<Rightarrow> string \<Rightarrow> int) \<Rightarrow> goldstock_company list \<Rightarrow> (int \<rightharpoonup> known) \<Rightarrow>
   nat \<Rightarrow> nat \<Rightarrow> company list \<Rightarrow> mapping list \<Rightarrow> world \<Rightarrow> error + mapping list \<times> world" where
  "matching_loop2 intr scorer gss known_mappings n i [] ms w = Inr (ms, w)"
| "matching_loop2 intr scorer gss known_mappings n i (c # cs) ms w =
     (if intr (2 * i) then Inr (ms, w)
      else case match_company2 scorer gss known_mappings c of
        Inl e \<Rightarrow> Inl e
      | Inr m \<Rightarrow>
          (let ms' = ms @ [m];
               w' = (if (i + 1) mod 10 = 0 \<or> Suc i = n
                     then save_checkpoint ms' (save_mappings ms' w) else w)
           in if intr (2 * i + 1) then Inr (ms', save_checkpoint ms' (save_mappings ms' w'))
              else matching_loop2 intr scorer gss known_mappings n (Suc i) cs ms' w'))"

definition perform_matching2 ::
  "(nat \<Rightarrow> bool) \<Rightarrow> (string \<Rightarrow> string \<Rightarrow> int) \<Rightarrow> company list \<Rightarrow> goldstock_company list \<Rightarrow>
   (int \<rightharpoonup> known) \<Rightarrow> world \<Rightarrow> error + mapping list \<times> world" where
  "perform_matching2 intr scorer companies goldstock_companies known_mappings w =
     (if goldstock_companies = [] then Inr ([], w)
      else matching_loop2 intr scorer goldstock_companies known_mappings
             (length companies) 0 companies [] w)"

section \<open>Fetching with the cache\<close>

text \<open>\<^verbatim>\<open>str(goldstock_id)\<close>: the decimal digits of an integer.\<close>

function str_nat :: "nat \<Rightarrow> string" where
  "str_nat n =
     (if n < 10 then [char_of (48 + n)] else str_nat (n div 10) @ [char_of (48 + n mod 10)])"
  by pat_completeness auto
termination
  by (relation "measure id") auto

declare str_nat.simps [simp del]

definition str_int :: "int \<Rightarrow> string" where
  "str_int i = (if i < 0 then CHR ''-'' # str_nat (nat (- i)) else str_nat (nat i))"

text \<open>
  What the network and the page parser give for an identifier: the status 404, any other
  failure of the request or of the parsing, or a page with the company name, the ticker and
  the exchange that the selectors extract (each may be missing). How a page is parsed is
  outside the model.
\<close>

datatype response = NotFound | Failed | Page "string option" "string option" "string option"

text \<open>
  \<^verbatim>\<open>fetch_company_by_id\<close> of \<^verbatim>\<open>mapping_script.py\<close>. A key that is in the cache answers
  without a request, also when its value is \<^verbatim>\<open>None\<close>. The cache is taken to hold records
  that this script wrote: \<^verbatim>\<open>GoldstockCompany(**cached)\<close> raises on a record with a key the
  class lacks, such as the \<^verbatim>\<open>exchange\<close> that \<^verbatim>\<open>mapping_script2.py\<close> stores. After a 404 the entry is stored and
  the function returns at once; the other two stores are followed by the save of every
  fiftieth entry.
\<close>

definition fetch_company_by_id ::
  "(int \<Rightarrow> response) \<Rightarrow> int \<Rightarrow> world \<Rightarrow> goldstock_company option \<times> world" where
  "fetch_company_by_id net gid w =
     (let cache_key = ''goldstock_'' @ str_int gid
      in case map_of (cache w) cache_key of
           Some cached \<Rightarrow> (cached, w)
         | None \<Rightarrow>
             (let w = w\<lparr>requests := requests w @ [gid]\<rparr>
              in case net gid of
                   NotFound \<Rightarrow> (None, w\<lparr>cache := dict_set cache_key None (cache w)\<rparr>)
                 | Failed \<Rightarrow> (None, w)
                 | Page page_name tick exch \<Rightarrow>
                     (case page_name of
                        None \<Rightarrow>
                          (let w = w\<lparr>cache := dict_set cache_key None (cache w)\<rparr>;
                               w = (if length (cache w) mod 50 = 0 then save_cache w else w)
                           in (None, w))
                      | Some name \<Rightarrow>
                          if name = []
                          then (let w = w\<lparr>cache := dict_set cache_key None (cache w)\<rparr>;
                                    w = (if length (cache w) mod 50 = 0 then save_cache w else w)
                                in (None, w))
                          else (let result =
                                      \<lparr>goldstock_id = str_int gid, gs_company_name = name,
                                       ticker = tick, aliases = extract_company_aliases name,
                                       exchange = None\<rparr>;
                                    w = w\<lparr>cache := dict_set cache_key (Some result) (cache w)\<rparr>;
                                    w = (if length (cache w) mod 50 = 0 then save_cache w else w)
                                in (Some result, w)))))"

text \<open>\<^verbatim>\<open>fetch_company_by_id\<close> of \<^verbatim>\<open>mapping_script2.py\<close>: the 404 branch saves every fiftieth
  entry too, and the record keeps the exchange.\<close>

definition fetch_company_by_id2 ::
  "(int \<Rightarrow> response) \<Rightarrow> int \<Rightarrow> world \<Rightarrow> goldstock_company option \<times> world" where
  "fetch_company_by_id2 net gid w =
     (let cache_key = ''goldstock_'' @ str_int gid
      in case map_of (cache w) cache_key of
           Some cached \<Rightarrow> (cached, w)
         | None \<Rightarrow>
             (let w = w\<lparr>requests := requests w @ [gid]\<rparr>
              in case net gid of
                   NotFound \<Rightarrow>
                     (let w = w\<lparr>cache := dict_set cache_key None (cache w)\<rparr>;
                          w = (if length (cache w) mod 50 = 0 then save_cache w else w)
                      in (None, w))
                 | Failed \<Rightarrow> (None, w)
                 | Page page_name tick exch \<Rightarrow>
                     (case page_name of
                        None \<Rightarrow>
                          (let w = w\<lparr>cache := dict_set cache_key None (cache w)\<rparr>;
                               w = (if length (cache w) mod 50 = 0 then save_cache w else w)
                           in (None, w))
                      | Some name \<Rightarrow>
                          if name = []
                          then (let w = w\<lparr>cache := dict_set cache_key None (cache w)\<rparr>;
                                    w = (if length (cache w) mod 50 = 0 then save_cache w else w)
                                in (None, w))
                          else (let result =
                                      \<lparr>goldstock_id = str_int gid, gs_company_name = name,
                                       ticker = tick, aliases = extract_company_aliases2 name,
                                       exchange = exch\<rparr>;
                                    w = w\<lparr>cache := dict_set cache_key (Some result) (cache w)\<rparr>;
                                    w = (if length (cache w) mod 50 = 0 then save_cache w else w)
                                in (Some result, w)))))"

text \<open>
  \<^verbatim>\<open>fetch_companies_parallel\<close> with one worker and no interruption: the identifiers are
  fetched in the order of submission and the records that were found are collected.
\<close>

fun collect ::
  "(int \<Rightarrow> world \<Rightarrow> goldstock_company option \<times> world) \<Rightarrow> int list \<Rightarrow>
   goldstock_company list \<Rightarrow> world \<Rightarrow> goldstock_company list \<times> world" where
  "collect fetch [] companies w = (companies, w)"
| "collect fetch (gid # gids) companies w =
     (case fetch gid w of
        (result, w') \<Rightarrow>
          collect fetch gids (case result of None \<Rightarrow> companies | Some r \<Rightarrow> companies @ [r]) w')"

definition fetch_companies_parallel ::
  "(int \<Rightarrow> response) \<Rightarrow> int \<Rightarrow> int \<Rightarrow> world \<Rightarrow> goldstock_company list \<times> world" where
  "fetch_companies_parallel net start_id max_id w =
     collect (fetch_company_by_id net) [start_id..max_id] [] w"

definition fetch_companies_parallel2 ::
  "(int \<Rightarrow> response) \<Rightarrow> int \<Rightarrow> int \<Rightarrow> world \<Rightarrow> goldstock_company list \<times> world" where
  "fetch_companies_parallel2 net start_id max_id w =
     collect (fetch_company_by_id2 net) [start_id..max_id] [] w"

section \<open>The driver\<close>

record args =
  limit :: "int option"
  max_id :: int
  resume :: bool
  clear_cache :: bool

text \<open>How a run ends: it reaches the end of \<^verbatim>\<open>main\<close>, it leaves early (no company loaded,
  no record fetched), or an exception escapes.\<close>

datatype ending = Completed | Stopped | Raised error

text \<open>The slice \<^verbatim>\<open>data[:limit]\<close>; a negative bound counts from the end.\<close>

definition py_prefix :: "int \<Rightarrow> 'a list \<Rightarrow> 'a list" where
  "py_prefix l xs = (if 0 \<le> l then take (nat l) xs else take (length xs - nat (- l)) xs)"

text \<open>\<^verbatim>\<open>load_companies\<close> of \<^verbatim>\<open>mapping_script.py\<close>: \<^verbatim>\<open>data[:limit] if limit else data\<close>; a
  missing or malformed file gives the empty list.\<close>

definition load_companies :: "int option \<Rightarrow> company list file_state \<Rightarrow> company list" where
  "load_companies lim f =
     (case f of
        Stored data \<Rightarrow>
          (case lim of None \<Rightarrow> data | Some l \<Rightarrow> if l = 0 then data else py_prefix l data)
      | _ \<Rightarrow> [])"

text \<open>\<^verbatim>\<open>load_companies\<close> of \<^verbatim>\<open>mapping_script2.py\<close>: \<^verbatim>\<open>data[:limit] if limit is not None\<close>.\<close>

definition load_companies2 :: "int option \<Rightarrow> company list file_state \<Rightarrow> company list" where
  "load_companies2 lim f =
     (case f of
        Stored data \<Rightarrow> (case lim of None \<Rightarrow> data | Some l \<Rightarrow> py_prefix l data)
      | _ \<Rightarrow> [])"

text \<open>The table \<^verbatim>\<open>known_mappings\<close> of \<^verbatim>\<open>main\<close>, the same in both scripts.\<close>

definition main_known_mappings :: "int \<rightharpoonup> known" where
  "main_known_mappings =
     [8 \<mapsto> \<lparr>k_goldstock_id = ''1'', k_goldstock_name = ''Abcourt Mines Inc'',
             k_confidence_score = 100\<rparr>,
      10 \<mapsto> \<lparr>k_goldstock_id = ''8'', k_goldstock_name = ''Agnico Eagle Mines Ltd'',
              k_confidence_score = 100\<rparr>,
      331 \<mapsto> \<lparr>k_goldstock_id = ''374'', k_goldstock_name = ''Probe Gold Inc'',
               k_confidence_score = 100\<rparr>,
      48 \<mapsto> \<lparr>k_goldstock_id = ''1470'', k_goldstock_name = ''Aya Gold & Silver Inc.'',
              k_confidence_score = 100\<rparr>,
      313 \<mapsto> \<lparr>k_goldstock_id = ''605'', k_goldstock_name = ''Aura Minerals Inc.'',
               k_confidence_score = 100\<rparr>]"

text \<open>The state with which \<^verbatim>\<open>CompanyMatcher()\<close> starts from the files.\<close>

definition start_world :: "files \<Rightarrow> world" where
  "start_world fs =
     \<lparr>cache_file = cache_file fs, checkpoint_file = checkpoint_file fs,
      output_file = output_file fs,
      cache = load_json [] (cache_file fs),
      checkpoint = load_json \<lparr>processed_ids = [], mappings = []\<rparr> (checkpoint_file fs),
      requests = []\<rparr>"

text \<open>
  \<^verbatim>\<open>main\<close> of \<^verbatim>\<open>mapping_script.py\<close>, in a run without an interruption signal. The merge
  with the checkpoint reads \<^verbatim>\<open>matcher.checkpoint\<close> after \<^verbatim>\<open>perform_matching\<close> has returned.
  The summary divides by \<^verbatim>\<open>len(mappings)\<close>. The cache is never saved here.
\<close>

definition main ::
  "(string \<Rightarrow> string \<Rightarrow> int) \<Rightarrow> (int \<Rightarrow> response) \<Rightarrow> args \<Rightarrow> company list file_state \<Rightarrow>
   files \<Rightarrow> ending \<times> world" where
  "main scorer net a json_file fs =
     (let fs = (if clear_cache a then fs\<lparr>cache_file := Absent\<rparr> else fs);
          w = start_world fs;
          companies = load_companies (limit a) json_file
      in if companies = [] then (Stopped, w)
         else
           (let companies =
                  (if resume a \<and> processed_ids (checkpoint w) \<noteq> []
                   then filter (\<lambda>c. company_id c \<notin> set (processed_ids (checkpoint w))) companies
                   else companies)
            in case fetch_companies_parallel net 1 (max_id a) w of
                 (goldstock_companies, w) \<Rightarrow>
                   if goldstock_companies = [] then (Stopped, w)
                   else
                     (case perform_matching (\<lambda>n. False) scorer companies goldstock_companies
                             main_known_mappings w of
                        (ms, w) \<Rightarrow>
                          (let ms = (if resume a \<and> mappings (checkpoint w) \<noteq> []
                                     then mappings (checkpoint w) @ ms else ms);
                               w = save_mappings ms w
                           in if ms = [] then (Raised ZeroDivisionError, w)
                              else (Completed, w\<lparr>checkpoint_file := Absent\<rparr>)))))"

text \<open>
  \<^verbatim>\<open>main\<close> of \<^verbatim>\<open>mapping_script2.py\<close>: \<^verbatim>\<open>--clear-cache\<close> removes the checkpoint too, and the
  table, the checkpoint and the cache are saved after the merge. The check of the logos,
  which only reads the network, is left out.
\<close>

definition main2 ::
  "(string \<Rightarrow> string \<Rightarrow> int) \<Rightarrow> (int \<Rightarrow> response) \<Rightarrow> args \<Rightarrow> company list file_state \<Rightarrow>
   files \<Rightarrow> ending \<times> world" where
  "main2 scorer net a json_file fs =
     (let fs = (if clear_cache a then fs\<lparr>cache_file := Absent, checkpoint_file := Absent\<rparr>
                else fs);
          w = start_world fs;
          companies = load_companies2 (limit a) json_file
      in if companies = [] then (Stopped, w)
         else
           (let companies =
                  (if resume a \<and> processed_ids (checkpoint w) \<noteq> []
                   then filter (\<lambda>c. company_id c \<notin> set (processed_ids (checkpoint w))) companies
                   else companies)
            in case fetch_companies_parallel2 net 1 (max_id a) w of
                 (goldstock_companies, w) \<Rightarrow>
                   if goldstock_companies = [] then (Stopped, w)
                   else
                     (case perform_matching2 (\<lambda>n. False) scorer companies goldstock_companies
                             main_known_mappings w of
                        Inl e \<Rightarrow> (Raised e, w)
                      | Inr (ms, w) \<Rightarrow>
                          (let ms = (if resume a \<and> mappings (checkpoint w) \<noteq> []
                                     then mappings (checkpoint w) @ ms else ms);
                               w = save_cache (save_checkpoint ms (save_mappings ms w))
                           in if ms = [] then (Raised ZeroDivisionError, w)
                              else (Completed, w\<lparr>checkpoint_file := Absent\<rparr>)))))"

text \<open>The files that a run leaves for the next one.\<close>

definition files_of :: "world \<Rightarrow> files" where
  "files_of w =
     \<lparr>cache_file = cache_file w, checkpoint_file = checkpoint_file w,
      output_file = output_file w\<rparr>"

section \<open>Auxiliary predicates\<close>

text \<open>What the local variables satisfy after every block.\<close>

definition vars_ok :: "vars \<Rightarrow> bool" where
  "vars_ok v \<longleftrightarrow>
     (v_match v = None \<and> v_status v = ''unmatched'' \<and> v_goldstock_id v = None
        \<and> v_match_method v = ''none'' \<and> v_confidence v = 0)
     \<or> (v_match v \<noteq> None \<and> (v_status v = ''matched'' \<or> v_status v = ''manual'')
        \<and> v_goldstock_id v \<noteq> None \<and> v_match_method v \<noteq> ''none'' \<and> 0 < v_confidence v)"

text \<open>Whitespace as \<^verbatim>\<open>re.sub(r'\s+', ' ', name)\<close> leaves it: every whitespace character
  is a space and none follows another.\<close>

fun single_spaced :: "string \<Rightarrow> bool" where
  "single_spaced [] = True"
| "single_spaced [c] = (\<not> is_space c \<or> c = CHR '' '')"
| "single_spaced (c # d # s) =
     ((\<not> is_space c \<or> (c = CHR '' '' \<and> \<not> is_space d)) \<and> single_spaced (d # s))"

section \<open>Example data\<close>

text \<open>A small run used to instantiate the theorems below: one record of the external
  source, one company with an entry in the table of known mappings, and one without.\<close>

definition ex_scorer :: "string \<Rightarrow> string \<Rightarrow> int" where
  "ex_scorer a b = 85"

definition ex_record :: goldstock_company where
  "ex_record =
     \<lparr>goldstock_id = ''1'', gs_company_name = ''Abc Inc'',
      ticker = Some ''ABC.V'', aliases = [''Abc Inc'', ''AI''], exchange = None\<rparr>"

definition ex_known_company :: company where
  "ex_known_company =
     \<lparr>company_id = 10, company_name = ''Agnico'', tsx_code = Some ''TSX:AEM''\<rparr>"

definition ex_bare_company :: company where
  "ex_bare_company = \<lparr>company_id = 78, company_name = ''Xy'', tsx_code = Some ''TSX:''\<rparr>"

definition ex_files :: files where
  "ex_files = \<lparr>cache_file = Absent, checkpoint_file = Absent, output_file = None\<rparr>"

definition ex_world :: world where
  "ex_world = start_world ex_files"

definition ex_known_outcome :: mapping where
  "ex_known_outcome =
     \<lparr>m_company_id = 10, m_company_name = ''Agnico'',
      m_tsx_code = Some ''TSX:AEM'', m_goldstock_id = Some ''8'',
      goldstock_name = Some ''Agnico Eagle Mines Ltd'', match_status = ''matched'',
      confidence_score = 100, match_method = ''known_mapping''\<rparr>"

text \<open>What the two scripts emit for \<open>ex_bare_company\<close>: its ticker is only an exchange
  prefix, no table knows its name, and the scorer gives 85 for the one record.\<close>

definition ex_bare_outcome :: mapping where
  "ex_bare_outcome =
     \<lparr>m_company_id = 78, m_company_name = ''Xy'', m_tsx_code = Some ''TSX:'',
      m_goldstock_id = Some ''1'', goldstock_name = Some ''Abc Inc'',
      match_status = ''manual'', confidence_score = 85, match_method = ''fuzzy_name''\<rparr>"

definition ex_bare_outcome2 :: mapping where
  "ex_bare_outcome2 =
     \<lparr>m_company_id = 78, m_company_name = ''Xy'', m_tsx_code = Some ''TSX:'',
      m_goldstock_id = Some ''1'', goldstock_name = Some ''Abc Inc'',
      match_status = ''matched'', confidence_score = 85, match_method = ''fuzzy_name''\<rparr>"

text \<open>The network of the example: identifier 1 has a page, identifier 2 answers 404.\<close>

definition ex_net :: "int \<Rightarrow> response" where
  "ex_net gid =
     (if gid = 1 then Page (Some ''Abc Inc'') (Some ''ABC.V'') None else NotFound)"

definition ex_args :: args where
  "ex_args = \<lparr>limit = None, max_id = 2, resume = False, clear_cache = False\<rparr>"

text \<open>The state in which \<^verbatim>\<open>main\<close> of \<^verbatim>\<open>mapping_script.py\<close> ends its first run on the example:
  both identifiers were requested, both entries are in the cache in memory, and no cache
  file was written.\<close>

definition ex_after_run :: world where
  "ex_after_run =
     \<lparr>cache_file = Absent, checkpoint_file = Absent, output_file = Some [ex_known_outcome],
      cache = [(''goldstock_1'', Some ex_record), (''goldstock_2'', None)],
      checkpoint = \<lparr>processed_ids = [10], mappings = [ex_known_outcome]\<rparr>,
      requests = [1, 2]\<rparr>"

text \<open>The same for \<^verbatim>\<open>main\<close> of \<^verbatim>\<open>mapping_script2.py\<close>, which saves the cache at the end.\<close>

definition ex_after_run2 :: world where
  "ex_after_run2 =
     \<lparr>cache_file = Stored [(''goldstock_1'', Some ex_record), (''goldstock_2'', None)],
      checkpoint_file = Absent, output_file = Some [ex_known_outcome],
      cache = [(''goldstock_1'', Some ex_record), (''goldstock_2'', None)],
      checkpoint = \<lparr>processed_ids = [10], mappings = [ex_known_outcome]\<rparr>,
      requests = [1, 2]\<rparr>"

text \<open>A resumed run: the checkpoint holds the outcome of the only company.\<close>

definition ex_resume_args :: args where
  "ex_resume_args = \<lparr>limit = None, max_id = 2, resume = True, clear_cache = False\<rparr>"

definition ex_resume_files :: files where
  "ex_resume_files =
     \<lparr>cache_file = Absent,
      checkpoint_file = Stored \<lparr>processed_ids = [10], mappings = [ex_known_outcome]\<rparr>,
      output_file = Some [ex_known_outcome]\<rparr>"

section \<open>Properties of the fuzzy selection\<close>

lemma foldl_best_mem:
  "foldl (\<lambda>best y. if snd y > snd best then y else best) (x :: 'a \<times> int) xs \<in> set (x # xs)"
  by (induction xs arbitrary: x) auto

lemma foldl_best_ge_init:
  "snd (x :: 'a \<times> int) \<le> snd (foldl (\<lambda>best y. if snd y > snd best then y else best) x xs)"
proof (induction xs arbitrary: x)
  case Nil
  show ?case by simp
next
  case (Cons y ys)
  show ?case
  proof (cases "snd y > snd x")
    case True
    with Cons [of y] show ?thesis by simp
  next
    case False
    with Cons [of x] show ?thesis by simp
  qed
qed

lemma foldl_best_max:
  "z \<in> set (x # xs) \<Longrightarrow>
   snd (z :: 'a \<times> int) \<le> snd (foldl (\<lambda>best y. if snd y > snd best then y else best) x xs)"
proof (induction xs arbitrary: x)
  case Nil
  then show ?case by simp
next
  case (Cons y ys)
  show ?case
  proof (cases "snd y > snd x")
    case True
    have "z = x \<or> z \<in> set (y # ys)" using Cons.prems by auto
    then show ?thesis
    proof
      assume "z = x"
      then have "snd z \<le> snd y" using True by simp
      also have "\<dots> \<le> snd (foldl (\<lambda>best y. if snd y > snd best then y else best) y ys)"
        by (rule foldl_best_ge_init)
      finally show ?thesis using True by simp
    next
      assume "z \<in> set (y # ys)"
      from Cons.IH [OF this] show ?thesis using True by simp
    qed
  next
    case False
    have "z = y \<or> z \<in> set (x # ys)" using Cons.prems by auto
    then show ?thesis
    proof
      assume "z = y"
      then have "snd z \<le> snd x" using False by simp
      also have "\<dots> \<le> snd (foldl (\<lambda>best y. if snd y > snd best then y else best) x ys)"
        by (rule foldl_best_ge_init)
      finally show ?thesis using False by simp
    next
      assume "z \<in> set (x # ys)"
      from Cons.IH [OF this] show ?thesis using False by simp
    qed
  qed
qed


lemma extractOne_Some:
  assumes "extractOne scorer q choices cutoff = Some (name, score)"
  shows "name \<in> set choices" and "score = scorer q name" and "cutoff \<le> score"
    and "\<forall>c \<in> set choices. scorer q c \<le> score"
proof -
  let ?l = "filter (\<lambda>(choice, score). score \<ge> cutoff) (map (\<lambda>choice. (choice, scorer q choice)) choices)"
  let ?f = "\<lambda>best y. if snd y > snd (best :: string \<times> int) then y else best"
  from assms obtain x xs where l: "?l = x # xs" and r: "(name, score) = foldl ?f x xs"
    by (auto simp: extractOne_def split: list.splits)
  have mem: "(name, score) \<in> set ?l" using foldl_best_mem [of x xs] l r by simp
  then show "name \<in> set choices" and "score = scorer q name" and "cutoff \<le> score" by auto
  show "\<forall>c \<in> set choices. scorer q c \<le> score"
  proof
    fix c assume c: "c \<in> set choices"
    show "scorer q c \<le> score"
    proof (cases "cutoff \<le> scorer q c")
      case True
      then have "(c, scorer q c) \<in> set (x # xs)" using c l [symmetric] by auto
      from foldl_best_max [OF this] show ?thesis using r [symmetric] by simp
    next
      case False
      then show ?thesis using \<open>cutoff \<le> score\<close> by simp
    qed
  qed
qed

lemma index_of_mem:
  "x \<in> set xs \<Longrightarrow> \<exists>i. index_of x xs = Some i \<and> i < length xs \<and> xs ! i = x"
  by (induction xs) auto


section \<open>Properties of the resolution engine\<close>

lemma known_tier_fields:
  "known_tier known_mappings c = Some m \<Longrightarrow>
   m_company_id m = company_id c \<and> m_company_name m = company_name c \<and> m_tsx_code m = tsx_code c
   \<and> match_method m = ''known_mapping''"
  by (auto simp: known_tier_def split: option.splits)

lemma ticker_tier_fields:
  "ticker_tier by_ticker c = Some m \<Longrightarrow>
   m_company_id m = company_id c \<and> m_company_name m = company_name c \<and> m_tsx_code m = tsx_code c
   \<and> match_method m = ''exact_ticker'' \<and> match_status m = ''matched'' \<and> confidence_score m = 100
   \<and> m_goldstock_id m \<noteq> None"
  by (auto simp: ticker_tier_def split: option.splits if_splits)

lemma name_tier_fields:
  "name_tier by_name c = Some m \<Longrightarrow>
   m_company_id m = company_id c \<and> m_company_name m = company_name c \<and> m_tsx_code m = tsx_code c
   \<and> match_method m = ''exact_name'' \<and> match_status m = ''matched'' \<and> confidence_score m = 95
   \<and> m_goldstock_id m \<noteq> None"
  by (auto simp: name_tier_def split: option.splits)

lemma fuzzy_tier_shape:
  "fuzzy_tier scorer gss c = unmatched_mapping c \<or>
   (m_goldstock_id (fuzzy_tier scorer gss c) \<noteq> None \<and>
    match_method (fuzzy_tier scorer gss c) = ''fuzzy_name'' \<and>
    80 \<le> confidence_score (fuzzy_tier scorer gss c) \<and>
    match_status (fuzzy_tier scorer gss c) =
      (if 90 \<le> confidence_score (fuzzy_tier scorer gss c) then ''matched'' else ''manual''))"
  unfolding fuzzy_tier_def Let_def
  by (simp split: option.splits prod.splits)

lemma fuzzy_tier_fields:
  "m_company_id (fuzzy_tier scorer gss c) = company_id c \<and>
   m_company_name (fuzzy_tier scorer gss c) = company_name c \<and>
   m_tsx_code (fuzzy_tier scorer gss c) = tsx_code c"
  unfolding fuzzy_tier_def Let_def
  by (auto simp: unmatched_mapping_def split: option.splits if_splits prod.splits)

lemma match_company_fields:
  "m_company_id (match_company scorer gss known_mappings c) = company_id c \<and>
   m_company_name (match_company scorer gss known_mappings c) = company_name c \<and>
   m_tsx_code (match_company scorer gss known_mappings c) = tsx_code c"
  unfolding match_company_def
  using known_tier_fields ticker_tier_fields name_tier_fields fuzzy_tier_fields
  by (auto split: option.splits)

lemma matching_loop_emits:
  "\<exists>k. fst (matching_loop intr scorer gss known_mappings (gs_by_ticker gss)
              (gs_by_normalized_name gss) i cs ms w)
        = ms @ map (match_company scorer gss known_mappings) (take k cs)"
proof (induction cs arbitrary: i ms w)
  case Nil
  show ?case by simp
next
  case (Cons c cs)
  show ?case
  proof (cases "intr i")
    case True
    then have "fst (matching_loop intr scorer gss known_mappings (gs_by_ticker gss)
              (gs_by_normalized_name gss) i (c # cs) ms w)
        = ms @ map (match_company scorer gss known_mappings) (take 0 (c # cs))"
      by simp
    then show ?thesis by blast
  next
    case False
    let ?m = "match_company scorer gss known_mappings c"
    have "\<exists>w'. matching_loop intr scorer gss known_mappings (gs_by_ticker gss)
         (gs_by_normalized_name gss) i (c # cs) ms w
       = matching_loop intr scorer gss known_mappings (gs_by_ticker gss)
         (gs_by_normalized_name gss) (Suc i) cs (ms @ [?m]) w'"
      using False
      by (cases "known_tier known_mappings c"; cases "ticker_tier (gs_by_ticker gss) c";
          cases "name_tier (gs_by_normalized_name gss) c")
         (auto simp: match_company_def Let_def)
    then obtain w' where step:
      "matching_loop intr scorer gss known_mappings (gs_by_ticker gss)
         (gs_by_normalized_name gss) i (c # cs) ms w
       = matching_loop intr scorer gss known_mappings (gs_by_ticker gss)
         (gs_by_normalized_name gss) (Suc i) cs (ms @ [?m]) w'"
      by blast
    from Cons [of "Suc i" "ms @ [?m]" w'] obtain k where
      "fst (matching_loop intr scorer gss known_mappings (gs_by_ticker gss)
         (gs_by_normalized_name gss) (Suc i) cs (ms @ [?m]) w')
       = (ms @ [?m]) @ map (match_company scorer gss known_mappings) (take k cs)"
      by blast
    then have "fst (matching_loop intr scorer gss known_mappings (gs_by_ticker gss)
              (gs_by_normalized_name gss) i (c # cs) ms w)
        = ms @ map (match_company scorer gss known_mappings) (take (Suc k) (c # cs))"
      using step by simp
    then show ?thesis by blast
  qed
qed

lemma perform_matching_emits:
  "m \<in> set (fst (perform_matching intr scorer companies gss known_mappings w)) \<Longrightarrow>
   \<exists>c \<in> set companies. m = match_company scorer gss known_mappings c"
proof -
  assume a: "m \<in> set (fst (perform_matching intr scorer companies gss known_mappings w))"
  obtain k where k: "fst (matching_loop intr scorer gss known_mappings (gs_by_ticker gss)
              (gs_by_normalized_name gss) 0 companies [] w)
        = [] @ map (match_company scorer gss known_mappings) (take k companies)"
    using matching_loop_emits by blast
  have "fst (perform_matching intr scorer companies gss known_mappings w)
        = map (match_company scorer gss known_mappings) (take k companies)"
    using k
    by (cases "matching_loop intr scorer gss known_mappings (gs_by_ticker gss)
              (gs_by_normalized_name gss) 0 companies [] w")
       (simp add: perform_matching_def)
  with a obtain c where "c \<in> set (take k companies)" "m = match_company scorer gss known_mappings c"
    by auto
  then show ?thesis using set_take_subset [of k companies] by blast
qed

lemma matching_loop_all:
  "\<forall>n. \<not> intr n \<Longrightarrow>
   fst (matching_loop intr scorer gss known_mappings (gs_by_ticker gss)
              (gs_by_normalized_name gss) i cs ms w)
        = ms @ map (match_company scorer gss known_mappings) cs"
  by (induction cs arbitrary: i ms w)
     (auto simp: match_company_def Let_def split: option.splits)

lemma extractOne_index:
  "extractOne scorer q choices cutoff = Some (name, score) \<Longrightarrow>
   \<exists>i. index_of name choices = Some i \<and> i < length choices"
  using extractOne_Some(1) [of scorer q choices cutoff name score] index_of_mem [of name choices]
  by blast

lemma initial_vars_ok: "vars_ok initial_vars"
  by (simp add: vars_ok_def initial_vars_def)

lemma known_step2_ok:
  "vars_ok v \<Longrightarrow> (\<And>k. known_mappings (company_id c) = Some k \<Longrightarrow> 0 < k_confidence_score k) \<Longrightarrow>
   vars_ok (known_step2 known_mappings c v)"
  by (cases "known_mappings (company_id c)") (simp_all add: known_step2_def vars_ok_def)

lemma ticker_step2_ok: "vars_ok v \<Longrightarrow> vars_ok (ticker_step2 by_ticker c v)"
  by (auto simp: ticker_step2_def vars_ok_def Let_def split: option.splits)

lemma name_step2_ok: "vars_ok v \<Longrightarrow> vars_ok (name_step2 by_name c v)"
  by (auto simp: name_step2_def vars_ok_def Let_def split: option.splits)

lemma fuzzy_step2_total: "\<exists>v'. fuzzy_step2 scorer gss c v = Inr v'"
proof (cases "v_match v = None \<and> normalize_name2 (Some (company_name c)) \<noteq> []")
  case False
  then show ?thesis by (auto simp: fuzzy_step2_def Let_def)
next
  case True
  let ?choices = "map (\<lambda>(name, gs). normalize_name2 (Some name))
                    (map (\<lambda>gs. (gs_company_name gs, gs)) gss)"
  show ?thesis
  proof (cases "extractOne scorer (normalize_name2 (Some (company_name c))) ?choices 70")
    case None
    with True show ?thesis by (simp add: fuzzy_step2_def Let_def)
  next
    case (Some r)
    obtain name score where r: "r = (name, score)" by (cases r)
    from extractOne_index [OF Some [unfolded r]] obtain i where
      "index_of name ?choices = Some i" by blast
    with True Some r show ?thesis by (simp add: fuzzy_step2_def Let_def)
  qed
qed

lemma fuzzy_step2_ok:
  assumes "vars_ok v" and "fuzzy_step2 scorer gss c v = Inr v'"
  shows "vars_ok v'"
proof (cases "v_match v = None \<and> normalize_name2 (Some (company_name c)) \<noteq> []")
  case False
  with assms show ?thesis by (auto simp: fuzzy_step2_def Let_def)
next
  case True
  let ?choices = "map (\<lambda>(name, gs). normalize_name2 (Some name))
                    (map (\<lambda>gs. (gs_company_name gs, gs)) gss)"
  show ?thesis
  proof (cases "extractOne scorer (normalize_name2 (Some (company_name c))) ?choices 70")
    case None
    with True assms show ?thesis by (simp add: fuzzy_step2_def Let_def)
  next
    case (Some r)
    obtain name score where r: "r = (name, score)" by (cases r)
    have "70 \<le> score" using extractOne_Some(3) [OF Some [unfolded r]] .
    with True Some r assms(2) show ?thesis
      by (auto simp: fuzzy_step2_def Let_def vars_ok_def split: option.splits if_splits)
  qed
qed

lemma match_company2_total:
  "\<exists>m. match_company2 scorer gss known_mappings c = Inr m"
  using fuzzy_step2_total
    [of scorer gss c "name_step2 (gs_by_normalized_name2 gss) c
       (ticker_step2 (gs_by_ticker2 gss) c (known_step2 known_mappings c initial_vars))"]
  by (auto simp: match_company2_def)

lemma match_company2_fields:
  "match_company2 scorer gss known_mappings c = Inr m \<Longrightarrow>
   m_company_id m = company_id c \<and> m_company_name m = company_name c \<and> m_tsx_code m = tsx_code c"
  by (auto simp: match_company2_def split: sum.splits)

lemma match_company2_known:
  assumes "known_mappings (company_id c) = Some k"
  shows "match_company2 scorer gss known_mappings c =
     Inr \<lparr>m_company_id = company_id c, m_company_name = company_name c,
          m_tsx_code = tsx_code c, m_goldstock_id = Some (k_goldstock_id k),
          goldstock_name = Some (k_goldstock_name k), match_status = ''matched'',
          confidence_score = k_confidence_score k, match_method = ''known_mapping''\<rparr>"
  using assms
  by (simp add: match_company2_def known_step2_def ticker_step2_def name_step2_def
        fuzzy_step2_def Let_def)

lemma match_company2_ok:
  assumes "match_company2 scorer gss known_mappings c = Inr m"
    and "\<And>k. known_mappings (company_id c) = Some k \<Longrightarrow> 0 < k_confidence_score k"
  shows "(match_status m = ''unmatched'' \<and> m_goldstock_id m = None \<and> match_method m = ''none''
            \<and> confidence_score m = 0)
         \<or> ((match_status m = ''matched'' \<or> match_status m = ''manual'')
            \<and> m_goldstock_id m \<noteq> None \<and> match_method m \<noteq> ''none'' \<and> 0 < confidence_score m)"
proof -
  let ?v = "name_step2 (gs_by_normalized_name2 gss) c
       (ticker_step2 (gs_by_ticker2 gss) c (known_step2 known_mappings c initial_vars))"
  from assms(1) obtain v' where f: "fuzzy_step2 scorer gss c ?v = Inr v'"
    and m: "m = \<lparr>m_company_id = company_id c, m_company_name = company_name c,
               m_tsx_code = tsx_code c, m_goldstock_id = v_goldstock_id v',
               goldstock_name = v_goldstock_name v', match_status = v_status v',
               confidence_score = v_confidence v', match_method = v_match_method v'\<rparr>"
    by (auto simp: match_company2_def split: sum.splits)
  have "vars_ok ?v"
    by (intro name_step2_ok ticker_step2_ok known_step2_ok initial_vars_ok assms(2))
  from fuzzy_step2_ok [OF this f] show ?thesis
    unfolding m vars_ok_def by auto
qed

lemma match_company_ok:
  assumes "\<And>k. known_mappings (company_id c) = Some k \<Longrightarrow> 0 < k_confidence_score k"
  shows "(match_status (match_company scorer gss known_mappings c) = ''unmatched''
            \<and> m_goldstock_id (match_company scorer gss known_mappings c) = None
            \<and> match_method (match_company scorer gss known_mappings c) = ''none''
            \<and> confidence_score (match_company scorer gss known_mappings c) = 0)
         \<or> ((match_status (match_company scorer gss known_mappings c) = ''matched''
              \<or> match_status (match_company scorer gss known_mappings c) = ''manual'')
            \<and> m_goldstock_id (match_company scorer gss known_mappings c) \<noteq> None
            \<and> match_method (match_company scorer gss known_mappings c) \<noteq> ''none''
            \<and> 0 < confidence_score (match_company scorer gss known_mappings c))"
proof (cases "known_tier known_mappings c")
  case (Some m)
  then obtain k where "known_mappings (company_id c) = Some k"
    by (auto simp: known_tier_def split: option.splits)
  with assms [of k] Some show ?thesis
    by (auto simp: match_company_def known_tier_def)
next
  case None
  note k = None
  show ?thesis
  proof (cases "ticker_tier (gs_by_ticker gss) c")
    case (Some m)
    with k ticker_tier_fields [OF Some] show ?thesis by (simp add: match_company_def)
  next
    case None
    note t = None
    show ?thesis
    proof (cases "name_tier (gs_by_normalized_name gss) c")
      case (Some m)
      with k t name_tier_fields [OF Some] show ?thesis by (simp add: match_company_def)
    next
      case None
      have eq: "match_company scorer gss known_mappings c = fuzzy_tier scorer gss c"
        using k t None by (simp add: match_company_def)
      show ?thesis
        unfolding eq using fuzzy_tier_shape [of scorer gss c]
        by (auto simp: unmatched_mapping_def split: if_splits)
    qed
  qed
qed

lemma matching_loop2_emits:
  "matching_loop2 intr scorer gss known_mappings n i cs ms w = Inr (ms', w') \<Longrightarrow>
   m \<in> set ms' \<Longrightarrow>
   m \<in> set ms \<or> (\<exists>c \<in> set cs. match_company2 scorer gss known_mappings c = Inr m)"
proof (induction cs arbitrary: i ms w)
  case Nil
  then show ?case by simp
next
  case (Cons c cs)
  show ?case
  proof (cases "intr (2 * i)")
    case True
    with Cons.prems show ?thesis by simp
  next
    case False
    from match_company2_total obtain mc where
      mc: "match_company2 scorer gss known_mappings c = Inr mc" by blast
    show ?thesis
    proof (cases "intr (2 * i + 1)")
      case True
      with False mc Cons.prems show ?thesis by (auto simp: Let_def)
    next
      case f2: False
      from False f2 mc Cons.prems(1) obtain w1 where
        "matching_loop2 intr scorer gss known_mappings n (Suc i) cs (ms @ [mc]) w1 = Inr (ms', w')"
        by (auto simp: Let_def split: if_splits)
      from Cons.IH [OF this Cons.prems(2)] mc show ?thesis by auto
    qed
  qed
qed

lemma matching_loop2_total:
  "\<exists>r. matching_loop2 intr scorer gss known_mappings n i cs ms w = Inr r"
proof (induction cs arbitrary: i ms w)
  case Nil
  show ?case by simp
next
  case (Cons c cs)
  from match_company2_total obtain mc where
    mc: "match_company2 scorer gss known_mappings c = Inr mc" by blast
  show ?case using mc Cons by (simp add: Let_def)
qed

lemma perform_matching2_total:
  "\<exists>ms w'. perform_matching2 intr scorer companies gss known_mappings w = Inr (ms, w')"
  using matching_loop2_total [of intr scorer gss known_mappings "length companies" 0 companies "[]" w]
  by (auto simp: perform_matching2_def)

lemma perform_matching2_emits:
  "perform_matching2 intr scorer companies gss known_mappings w = Inr (ms, w') \<Longrightarrow> m \<in> set ms \<Longrightarrow>
   \<exists>c \<in> set companies. match_company2 scorer gss known_mappings c = Inr m"
  using matching_loop2_emits [of intr scorer gss known_mappings "length companies" 0 companies "[]" w ms w' m]
  by (auto simp: perform_matching2_def split: if_splits)







lemma name_step2_cases:
  "name_step2 by_name c v = v
   \<or> (v_match (name_step2 by_name c v) \<noteq> None
      \<and> v_match_method (name_step2 by_name c v) = ''exact_name'')"
  by (simp add: name_step2_def Let_def split: option.splits)






lemma fold_add_ticker_no_empty:
  "d [] = None \<Longrightarrow> fold (add_ticker norm) gss d [] = None"
  by (induction gss arbitrary: d) (auto simp: add_ticker_def split: option.splits)

lemma ticker_tier_empty:
  "normalize_ticker (tsx_code c) = Some [] \<Longrightarrow> ticker_tier by_ticker c = None"
  by (simp add: ticker_tier_def)

lemma ticker_step2_empty:
  "normalize_ticker2 (tsx_code c) = Some [] \<Longrightarrow> ticker_step2 by_ticker c v = v"
  by (simp add: ticker_step2_def truthy_def)

section \<open>Properties of the alias expansion\<close>

lemma match_paren_at_parens:
  assumes a: "match_paren_at s = Some (body, rest)"
  shows "CHR ''('' \<in> set s \<and> CHR '')'' \<in> set s"
proof (cases s)
  case Nil
  with a show ?thesis by simp
next
  case (Cons c cs)
  with a have c: "c = CHR ''(''" and d: "dropWhile (\<lambda>x. x \<noteq> CHR '')'') cs \<noteq> []"
    by (auto simp: Let_def split: if_splits)
  from d have "hd (dropWhile (\<lambda>x. x \<noteq> CHR '')'') cs) = CHR '')''"
    using hd_dropWhile [of "\<lambda>x. x \<noteq> CHR '')''" cs] by simp
  moreover have "hd (dropWhile (\<lambda>x. x \<noteq> CHR '')'') cs) \<in> set cs"
    using d set_dropWhileD [of _ "\<lambda>x. x \<noteq> CHR '')''" cs] hd_in_set by blast
  ultimately show ?thesis using Cons c by auto
qed

lemma findall_paren_parens:
  "findall_paren s \<noteq> [] \<Longrightarrow> CHR ''('' \<in> set s \<and> CHR '')'' \<in> set s"
proof (induction s rule: findall_paren.induct)
  case 1
  then show ?case by simp
next
  case (2 c cs)
  show ?case
  proof (cases "match_paren_at (c # cs)")
    case None
    with 2 show ?thesis by (auto simp del: match_paren_at.simps)
  next
    case (Some p)
    obtain body rest where p: "p = (body, rest)" by (cases p)
    from match_paren_at_parens [OF Some [unfolded p]] show ?thesis .
  qed
qed

lemma alias_blocks_grow:
  "set al \<subseteq> set (abbrev_aliases name al)"
  "set al \<subseteq> set (abbrev_aliases2 name al)"
  "set al \<subseteq> set (amp_aliases name al)"
  "set al \<subseteq> set (and_aliases name al)"
  "set al \<subseteq> set (and_aliases2 name al)"
  by (auto simp: abbrev_aliases_def abbrev_aliases2_def amp_aliases_def and_aliases_def
        and_aliases2_def Let_def)

lemma aliases2_contains:
  "set (paren_aliases2 name [name]) \<subseteq> set (extract_company_aliases2 name)"
  unfolding extract_company_aliases2_def set_remdups
  using alias_blocks_grow(2,3,5) by (meson subset_trans)

lemma aliases_contains:
  "set (paren_aliases name [name]) \<subseteq> set (extract_company_aliases name)"
  unfolding extract_company_aliases_def set_remdups
  using alias_blocks_grow(1,3,4) by (meson subset_trans)

section \<open>The example, evaluated\<close>

lemma main_known_positive:
  "main_known_mappings i = Some k \<Longrightarrow> 0 < k_confidence_score k"
  by (auto simp: main_known_mappings_def split: if_splits)

lemma ex_bare_run:
  "fst (perform_matching (\<lambda>n. False) ex_scorer [ex_bare_company] [ex_record]
          main_known_mappings ex_world) = [ex_bare_outcome]"
  by code_simp

lemma ex_bare_run2:
  "fst (projr (perform_matching2 (\<lambda>n. False) ex_scorer [ex_bare_company] [ex_record]
          main_known_mappings ex_world)) = [ex_bare_outcome2]"
  by code_simp


section \<open>Runs of the driver\<close>

lemma ex_first_run:
  "main ex_scorer ex_net ex_args (Stored [ex_known_company]) ex_files = (Completed, ex_after_run)"
  by code_simp

lemma ex_second_run:
  "requests (snd (main ex_scorer ex_net ex_args (Stored [ex_known_company])
      (files_of ex_after_run))) = [1, 2]"
  by code_simp

lemma ex_first_run2:
  "main2 ex_scorer ex_net ex_args (Stored [ex_known_company]) ex_files = (Completed, ex_after_run2)"
  by code_simp

lemma ex_second_run2:
  "requests (snd (main2 ex_scorer ex_net ex_args (Stored [ex_known_company])
      (files_of ex_after_run2))) = []"
  by code_simp

lemma ex_resume_run:
  "main ex_scorer ex_net ex_resume_args (Stored [ex_known_company]) ex_resume_files
   = (Raised ZeroDivisionError,
      \<lparr>cache_file = Absent,
       checkpoint_file = Stored \<lparr>processed_ids = [], mappings = []\<rparr>,
       output_file = Some [],
       cache = [(''goldstock_1'', Some ex_record), (''goldstock_2'', None)],
       checkpoint = \<lparr>processed_ids = [], mappings = []\<rparr>,
       requests = [1, 2]\<rparr>)"
  by code_simp


lemma fetch_company_by_id2_keeps:
  "checkpoint (snd (fetch_company_by_id2 net gid w)) = checkpoint w \<and>
   checkpoint_file (snd (fetch_company_by_id2 net gid w)) = checkpoint_file w \<and>
   output_file (snd (fetch_company_by_id2 net gid w)) = output_file w"
  by (simp add: fetch_company_by_id2_def save_cache_def Let_def
           split: option.splits response.splits)

lemma collect_keeps:
  assumes "\<And>gid w. checkpoint (snd (fetch gid w)) = checkpoint w \<and>
             checkpoint_file (snd (fetch gid w)) = checkpoint_file w \<and>
             output_file (snd (fetch gid w)) = output_file w"
  shows "checkpoint (snd (collect fetch gids acc w)) = checkpoint w \<and>
         checkpoint_file (snd (collect fetch gids acc w)) = checkpoint_file w \<and>
         output_file (snd (collect fetch gids acc w)) = output_file w"
proof (induction gids arbitrary: acc w)
  case Nil
  show ?case by simp
next
  case (Cons gid gids)
  obtain r w1 where f: "fetch gid w = (r, w1)" by (cases "fetch gid w")
  have "checkpoint w1 = checkpoint w \<and> checkpoint_file w1 = checkpoint_file w \<and>
        output_file w1 = output_file w"
    using assms [of gid w] f by simp
  with Cons [of "case r of None \<Rightarrow> acc | Some x \<Rightarrow> acc @ [x]" w1] f show ?case by simp
qed

lemma main2_resume_complete:
  assumes res: "resume a" and ncl: "\<not> clear_cache a"
    and cpf: "checkpoint_file fs = Stored cp"
    and ne: "load_companies2 (limit a) json_file \<noteq> []"
    and all: "\<forall>c \<in> set (load_companies2 (limit a) json_file). company_id c \<in> set (processed_ids cp)"
    and got: "fst (fetch_companies_parallel2 net 1 (max_id a) (start_world fs)) \<noteq> []"
  shows "filter (\<lambda>c. company_id c \<notin> set (processed_ids cp))
           (load_companies2 (limit a) json_file) = []
         \<and> output_file (snd (main2 scorer net a json_file fs)) = Some (mappings cp)"
proof -
  let ?w = "start_world fs"
  let ?cs = "load_companies2 (limit a) json_file"
  have cp: "checkpoint ?w = cp" using cpf by (simp add: start_world_def load_json_def)
  have pne: "processed_ids cp \<noteq> []" using ne all by (cases ?cs) auto
  have work: "filter (\<lambda>c. company_id c \<notin> set (processed_ids cp)) ?cs = []"
    using all by (simp add: filter_empty_conv)
  obtain gss w1 where f: "fetch_companies_parallel2 net 1 (max_id a) ?w = (gss, w1)"
    by (cases "fetch_companies_parallel2 net 1 (max_id a) ?w")
  have gne: "gss \<noteq> []" using got f by simp
  have w1: "checkpoint w1 = cp"
    using collect_keeps [of "fetch_company_by_id2 net" "[1..max_id a]" "[]" ?w,
            OF fetch_company_by_id2_keeps] f cp
    by (simp add: fetch_companies_parallel2_def)
  have pm: "perform_matching2 (\<lambda>n. False) scorer [] gss main_known_mappings w1 = Inr ([], w1)"
    using gne by (simp add: perform_matching2_def)
  have "output_file (snd (main2 scorer net a json_file fs)) = Some (mappings cp)"
    using res ncl ne cp pne work f gne pm w1
    by (simp add: main2_def Let_def save_cache_def save_checkpoint_def save_mappings_def)
  with work show ?thesis by simp
qed


lemma fetch_company_by_id_keeps:
  "checkpoint (snd (fetch_company_by_id net gid w)) = checkpoint w \<and>
   checkpoint_file (snd (fetch_company_by_id net gid w)) = checkpoint_file w \<and>
   output_file (snd (fetch_company_by_id net gid w)) = output_file w"
  by (simp add: fetch_company_by_id_def save_cache_def Let_def
           split: option.splits response.splits)

lemma main_resume_loses_checkpoint:
  assumes res: "resume a" and ncl: "\<not> clear_cache a"
    and cpf: "checkpoint_file fs = Stored cp"
    and ne: "load_companies (limit a) json_file \<noteq> []"
    and all: "\<forall>c \<in> set (load_companies (limit a) json_file). company_id c \<in> set (processed_ids cp)"
    and got: "fst (fetch_companies_parallel net 1 (max_id a) (start_world fs)) \<noteq> []"
  shows "fst (main scorer net a json_file fs) = Raised ZeroDivisionError
         \<and> output_file (snd (main scorer net a json_file fs)) = Some []"
proof -
  let ?w = "start_world fs"
  let ?cs = "load_companies (limit a) json_file"
  have cp: "checkpoint ?w = cp" using cpf by (simp add: start_world_def load_json_def)
  have pne: "processed_ids cp \<noteq> []" using ne all by (cases ?cs) auto
  have work: "filter (\<lambda>c. company_id c \<notin> set (processed_ids cp)) ?cs = []"
    using all by (simp add: filter_empty_conv)
  obtain gss w1 where f: "fetch_companies_parallel net 1 (max_id a) ?w = (gss, w1)"
    by (cases "fetch_companies_parallel net 1 (max_id a) ?w")
  have gne: "gss \<noteq> []" using got f by simp
  have pm: "perform_matching (\<lambda>n. False) scorer [] gss main_known_mappings w1
            = ([], save_checkpoint [] (save_mappings [] w1))"
    by (simp add: perform_matching_def)
  have after: "mappings (checkpoint (save_checkpoint [] (save_mappings [] w1))) = []"
    by (simp add: save_checkpoint_def save_mappings_def Let_def)
  show ?thesis
    using res ncl ne cp pne work f gne pm after
    by (simp add: main_def Let_def save_mappings_def)
qed


lemma ex_resume_run2:
  "output_file (snd (main2 ex_scorer ex_net ex_resume_args (Stored [ex_known_company])
      ex_resume_files)) = Some [ex_known_outcome]"
  by code_simp

section \<open>Properties of the loaders\<close>

lemma load_absent_or_corrupt:
  "load_cache Absent = JObj [] \<and> load_cache Corrupt = JObj []
   \<and> load_checkpoint Absent = empty_checkpoint \<and> load_checkpoint Corrupt = empty_checkpoint
   \<and> load_cache (Stored v) = v \<and> load_checkpoint (Stored v) = v
   \<and> is_dict empty_checkpoint"
  by (simp add: load_cache_def load_checkpoint_def load_json_def is_dict_def
        empty_checkpoint_def)

section \<open>Properties of the normalisers\<close>

lemma of_char_upper_char:
  "(of_char (upper_char c) :: nat) = (if is_lower c then of_char c - 32 else of_char c)"
  by (auto simp: upper_char_def is_lower_def Let_def)

lemma of_char_lower_char:
  "(of_char (lower_char c) :: nat) = (if is_upper c then of_char c + 32 else of_char c)"
  by (auto simp: lower_char_def is_upper_def Let_def)

lemma char_eq_code: "(c = d) = ((of_char c :: nat) = of_char d)"
  by (simp add: of_char_eq_iff)

lemma upper_char_idem [simp]: "upper_char (upper_char c) = upper_char c"
  by (auto simp: char_eq_code of_char_upper_char is_lower_def Let_def)

lemma lower_char_idem [simp]: "lower_char (lower_char c) = lower_char c"
  by (auto simp: char_eq_code of_char_lower_char is_upper_def Let_def)

lemma is_space_upper_char [simp]: "is_space (upper_char c) = is_space c"
  by (auto simp: is_space_def of_char_upper_char is_lower_def Let_def)

lemma upper_char_eq_punct:
  "(upper_char c = CHR ''.'') = (c = CHR ''.'')"
  "(upper_char c = CHR ''-'') = (c = CHR ''-'')"
  "(upper_char c = CHR ''_'') = (c = CHR ''_'')"
  by (auto simp: char_eq_code of_char_upper_char is_lower_def Let_def)

lemma upper_idem [simp]: "upper (upper s) = upper s"
  by (simp add: upper_def)

lemma lower_idem [simp]: "lower (lower s) = lower s"
  by (simp add: lower_def)


lemma set_strip: "set (strip s) \<subseteq> set s"
proof -
  have "set (strip s) = set (dropWhile is_space (rev (dropWhile is_space s)))"
    by (simp add: strip_def)
  also have "\<dots> \<subseteq> set (rev (dropWhile is_space s))"
    using set_dropWhileD by fastforce
  also have "\<dots> \<subseteq> set s" using set_dropWhileD by fastforce
  finally show ?thesis .
qed

lemma dropWhile_hd: "xs \<noteq> [] \<Longrightarrow> \<not> P (hd xs) \<Longrightarrow> dropWhile P xs = xs"
  by (cases xs) auto

lemma strip_fix:
  assumes "s = [] \<or> (\<not> is_space (hd s) \<and> \<not> is_space (last s))"
  shows "strip s = s"
proof (cases s)
  case Nil
  then show ?thesis by (simp add: strip_def)
next
  case (Cons c cs)
  with assms have h: "\<not> is_space (hd s)" and l: "\<not> is_space (last s)" by auto
  have a: "dropWhile is_space s = s" using Cons h by simp
  have "rev s \<noteq> []" using Cons by simp
  moreover have "hd (rev s) = last s" using Cons by (simp add: hd_rev)
  ultimately have "dropWhile is_space (rev s) = rev s" using l by (simp add: dropWhile_hd)
  with a show ?thesis by (simp add: strip_def)
qed

lemma strip_clean:
  "strip s = [] \<or> (\<not> is_space (hd (strip s)) \<and> \<not> is_space (last (strip s)))"
proof (cases "strip s = []")
  case True
  then show ?thesis by simp
next
  case False
  let ?t = "dropWhile is_space s"
  let ?u = "dropWhile is_space (rev ?t)"
  have u: "?u \<noteq> []" using False by (simp add: strip_def)
  then have hu: "\<not> is_space (hd ?u)" using hd_dropWhile by blast
  have "rev ?t = takeWhile is_space (rev ?t) @ ?u" by simp
  then have "last (rev ?t) = last ?u" using u by (metis last_appendR)
  moreover have "rev ?t \<noteq> []" using u by (metis dropWhile.simps(1))
  then have tne: "?t \<noteq> []" by simp
  then have "\<not> is_space (hd ?t)" using hd_dropWhile by blast
  moreover have "last (rev ?t) = hd ?t" using tne by (simp add: last_rev)
  ultimately have lu: "\<not> is_space (last ?u)" by simp
  have "hd (strip s) = last ?u" using u by (simp add: strip_def hd_rev)
  moreover have "last (strip s) = hd ?u" using u by (simp add: strip_def last_rev)
  ultimately show ?thesis using hu lu by simp
qed

lemma strip_idem [simp]: "strip (strip s) = strip s"
  using strip_clean [of s] by (rule strip_fix)

lemma strip_map:
  assumes "\<And>c. is_space (f c) = is_space c"
  shows "strip (map f s) = map f (strip s)"
proof -
  have c: "is_space \<circ> f = is_space" using assms by (simp add: fun_eq_iff)
  have d: "dropWhile is_space (map f xs) = map f (dropWhile is_space xs)" for xs
    by (simp add: dropWhile_map c)
  have "strip (map f s) = rev (dropWhile is_space (rev (map f (dropWhile is_space s))))"
    by (simp add: strip_def d)
  also have "\<dots> = rev (dropWhile is_space (map f (rev (dropWhile is_space s))))"
    by (simp add: rev_map)
  also have "\<dots> = rev (map f (dropWhile is_space (rev (dropWhile is_space s))))"
    by (simp only: d)
  also have "\<dots> = map f (strip s)"
    by (simp add: strip_def rev_map)
  finally show ?thesis .
qed

lemma strip_upper: "strip (upper s) = upper (strip s)"
  unfolding upper_def by (rule strip_map) simp


lemma match_suffix_at_dot:
  "match_suffix_at cs s = Some r \<Longrightarrow> s \<noteq> [] \<and> hd s = CHR ''.''"
proof (induction cs)
  case Nil
  then show ?case by simp
next
  case (Cons c cs)
  show ?case
  proof (cases "upper (take (length c + 1) s) = ''.'' @ c \<and> at_eol (drop (length c + 1) s)")
    case True
    then have "upper (take (Suc (length c)) s) = CHR ''.'' # c" by simp
    then show ?thesis
      by (cases s) (auto simp: upper_def upper_char_eq_punct)
  next
    case False
    with Cons show ?thesis by (simp split: if_splits)
  qed
qed

lemma sub_suffix_no_dot: "CHR ''.'' \<notin> set s \<Longrightarrow> sub_suffix cs s = s"
proof (induction s)
  case Nil
  show ?case by simp
next
  case (Cons x xs)
  have "match_suffix_at cs (x # xs) = None"
  proof (cases "match_suffix_at cs (x # xs)")
    case None
    then show ?thesis .
  next
    case (Some r)
    from match_suffix_at_dot [OF Some] Cons.prems show ?thesis by simp
  qed
  with Cons show ?case by simp
qed

lemma remove_punct_fix:
  "remove_punct s = s \<longleftrightarrow>
     (CHR ''.'' \<notin> set s \<and> CHR ''-'' \<notin> set s \<and> CHR ''_'' \<notin> set s)"
  unfolding remove_punct_def by (auto simp: filter_id_conv)

lemma punct_free_remove:
  "\<forall>c \<in> set t. c \<noteq> CHR ''.'' \<and> c \<noteq> CHR ''-'' \<and> c \<noteq> CHR ''_'' \<Longrightarrow> remove_punct t = t"
  unfolding remove_punct_def by (simp only: filter_id_conv)

lemma punct_free_removed:
  "\<forall>c \<in> set (remove_punct s). c \<noteq> CHR ''.'' \<and> c \<noteq> CHR ''-'' \<and> c \<noteq> CHR ''_''"
  by (simp add: remove_punct_def)

lemma punct_free_strip:
  "\<forall>c \<in> set t. c \<noteq> CHR ''.'' \<and> c \<noteq> CHR ''-'' \<and> c \<noteq> CHR ''_'' \<Longrightarrow>
   \<forall>c \<in> set (strip t). c \<noteq> CHR ''.'' \<and> c \<noteq> CHR ''-'' \<and> c \<noteq> CHR ''_''"
  using set_strip [of t] by (meson subsetD)

lemma punct_free_upper_char:
  "d \<noteq> CHR ''.'' \<and> d \<noteq> CHR ''-'' \<and> d \<noteq> CHR ''_'' \<Longrightarrow>
   upper_char d \<noteq> CHR ''.'' \<and> upper_char d \<noteq> CHR ''-'' \<and> upper_char d \<noteq> CHR ''_''"
  by (simp only: upper_char_eq_punct simp_thms)

lemma upper_mem: "e \<in> set (upper t) \<Longrightarrow> \<exists>d. d \<in> set t \<and> e = upper_char d"
  unfolding upper_def by (metis (no_types) imageE list.set_map)

lemma punct_free_upper:
  assumes "\<forall>c \<in> set t. c \<noteq> CHR ''.'' \<and> c \<noteq> CHR ''-'' \<and> c \<noteq> CHR ''_''"
  shows "\<forall>c \<in> set (upper t). c \<noteq> CHR ''.'' \<and> c \<noteq> CHR ''-'' \<and> c \<noteq> CHR ''_''"
proof
  fix e assume "e \<in> set (upper t)"
  from upper_mem [OF this] obtain d where d: "d \<in> set t" and e: "e = upper_char d" by blast
  from assms d have "d \<noteq> CHR ''.'' \<and> d \<noteq> CHR ''-'' \<and> d \<noteq> CHR ''_''" by (rule bspec)
  then have "upper_char d \<noteq> CHR ''.'' \<and> upper_char d \<noteq> CHR ''-'' \<and> upper_char d \<noteq> CHR ''_''"
    by (rule punct_free_upper_char)
  then show "e \<noteq> CHR ''.'' \<and> e \<noteq> CHR ''-'' \<and> e \<noteq> CHR ''_''" by (simp only: e simp_thms)
qed

lemma remove_punct_upper_strip:
  "remove_punct (upper (strip (remove_punct s))) = upper (strip (remove_punct s))"
  by (rule punct_free_remove, rule punct_free_upper, rule punct_free_strip,
      rule punct_free_removed)

lemma endswith_CN_dot: "endswith s ''.CN'' \<Longrightarrow> CHR ''.'' \<in> set s"
proof -
  assume "endswith s ''.CN''"
  then have "drop (length s - 3) s = ''.CN''" by (simp add: endswith_def eval_nat_numeral)
  then have "CHR ''.'' \<in> set (drop (length s - 3) s)" by simp
  then show ?thesis by (rule in_set_dropD)
qed

text \<open>A ticker that is already in upper case, stripped and free of decoration is left as
  it is by both normalisers.\<close>

lemma normalize_ticker_fix:
  assumes y: "y = upper (strip t)" and ne: "y \<noteq> []" and punct: "remove_punct y = y"
  shows "sub_prefix ticker_prefixes y = y \<Longrightarrow> normalize_ticker (Some y) = Some y"
    and "sub_prefix ticker_prefixes2 y = y \<Longrightarrow> normalize_ticker2 (Some y) = Some y"
proof -
  have nodot: "CHR ''.'' \<notin> set y" using punct by (simp add: remove_punct_fix)
  have st: "strip y = y" unfolding y by (simp add: strip_upper [symmetric])
  have up: "upper y = y" unfolding y by simp
  have cn: "\<not> endswith y ''.CN''" using nodot endswith_CN_dot by blast
  show "normalize_ticker (Some y) = Some y" if "sub_prefix ticker_prefixes y = y"
    using that ne cn punct st up nodot
    by (simp add: normalize_ticker_def sub_suffix_no_dot)
  show "normalize_ticker2 (Some y) = Some y" if "sub_prefix ticker_prefixes2 y = y"
    using that ne punct st up nodot
    by (simp add: normalize_ticker2_def sub_suffix_no_dot)
qed

lemma match_name_suffix_at_rest:
  assumes "match_name_suffix_at p s = Some r"
  shows "set r \<subseteq> set s \<and> length r < length s"
proof -
  obtain w opt where p: "p = (w, opt)" by (cases p)
  show ?thesis
  proof (cases s)
    case Nil
    with assms p show ?thesis by simp
  next
    case (Cons c cs)
    let ?r = "dropWhile is_space cs"
    let ?r' = "drop (length w) ?r"
    have a: "set ?r' \<subseteq> set cs"
      using set_drop_subset [of "length w" ?r] set_dropWhileD [of _ is_space cs] by blast
    have b: "length ?r' \<le> length cs"
      using length_dropWhile_le [of is_space cs] by simp
    from assms p Cons have "r = ?r' \<or> (\<exists>d. ?r' = d # r)"
      by (auto simp: Let_def split: if_splits option.splits list.splits)
    then show ?thesis
    proof
      assume "r = ?r'"
      with a b Cons show ?thesis by auto
    next
      assume "\<exists>d. ?r' = d # r"
      then obtain d where d: "?r' = d # r" by blast
      have "set r \<subseteq> set ?r'" unfolding d by auto
      moreover have "length r < length ?r'" unfolding d by simp
      ultimately show ?thesis using a b Cons by auto
    qed
  qed
qed

lemma sub_name_suffix_set: "set (sub_name_suffix p s) \<subseteq> set s"
proof (induction s)
  case Nil
  show ?case by simp
next
  case (Cons x xs)
  show ?case
  proof (cases "match_name_suffix_at p (x # xs)")
    case None
    with Cons show ?thesis by auto
  next
    case (Some r)
    with match_name_suffix_at_rest [OF Some] show ?thesis by simp
  qed
qed

lemma fold_sub_name_suffix_set: "set (fold sub_name_suffix ps s) \<subseteq> set s"
proof (induction ps arbitrary: s)
  case Nil
  show ?case by simp
next
  case (Cons p ps)
  have "set (fold sub_name_suffix ps (sub_name_suffix p s)) \<subseteq> set (sub_name_suffix p s)"
    by (rule Cons)
  also have "\<dots> \<subseteq> set s" by (rule sub_name_suffix_set)
  finally show ?case by simp
qed

lemma blank_specials_mem:
  "c \<in> set (blank_specials s) \<Longrightarrow> (c \<in> set s \<and> (is_word c \<or> is_space c)) \<or> c = CHR '' ''"
  by (auto simp: blank_specials_def split: if_splits)

lemma collapse_ws_mem:
  "c \<in> set (collapse_ws s) \<Longrightarrow> (c \<in> set s \<and> \<not> is_space c) \<or> c = CHR '' ''"
proof (induction s arbitrary: c rule: collapse_ws.induct)
  case 1
  then show ?case by simp
next
  case (2 x xs)
  show ?case
  proof (cases "is_space x")
    case True
    with 2 have "c = CHR '' '' \<or> c \<in> set (collapse_ws (dropWhile is_space xs))" by simp
    then show ?thesis
    proof
      assume "c = CHR '' ''" then show ?thesis by simp
    next
      assume "c \<in> set (collapse_ws (dropWhile is_space xs))"
      from "2.IH"(1) [OF True this] show ?thesis using set_dropWhileD by fastforce
    qed
  next
    case False
    with 2 have "c = x \<or> c \<in> set (collapse_ws xs)" by simp
    then show ?thesis
    proof
      assume "c = x" with False show ?thesis by simp
    next
      assume "c \<in> set (collapse_ws xs)"
      from "2.IH"(2) [OF False this] show ?thesis by auto
    qed
  qed
qed

lemma collapse_ws_hd:
  "s \<noteq> [] \<Longrightarrow> \<not> is_space (hd s) \<Longrightarrow> collapse_ws s \<noteq> [] \<and> hd (collapse_ws s) = hd s"
  by (cases s) auto

lemma single_spaced_Cons:
  "single_spaced (c # s) =
     ((\<not> is_space c \<or> (c = CHR '' '' \<and> (s = [] \<or> \<not> is_space (hd s)))) \<and> single_spaced s)"
  by (cases s) auto

lemma single_spaced_collapse: "single_spaced (collapse_ws s)"
proof (induction s rule: collapse_ws.induct)
  case 1
  show ?case by simp
next
  case (2 x xs)
  show ?case
  proof (cases "is_space x")
    case True
    let ?t = "dropWhile is_space xs"
    have "collapse_ws ?t = [] \<or> \<not> is_space (hd (collapse_ws ?t))"
    proof (cases "?t = []")
      case True
      then show ?thesis by (metis collapse_ws.simps(1))
    next
      case False
      then have "\<not> is_space (hd ?t)" using hd_dropWhile by blast
      with collapse_ws_hd [OF False this] show ?thesis by simp
    qed
    with True "2.IH"(1) [OF True] show ?thesis by (simp add: single_spaced_Cons)
  next
    case False
    with "2.IH"(2) [OF False] show ?thesis by (simp add: single_spaced_Cons)
  qed
qed

lemma single_spaced_fix: "single_spaced s \<Longrightarrow> collapse_ws s = s"
proof (induction s)
  case Nil
  show ?case by simp
next
  case (Cons c s)
  from Cons.prems have ss: "single_spaced s"
    and h: "\<not> is_space c \<or> (c = CHR '' '' \<and> (s = [] \<or> \<not> is_space (hd s)))"
    by (simp_all add: single_spaced_Cons)
  show ?case
  proof (cases "is_space c")
    case True
    with h have c: "c = CHR '' ''" and s: "s = [] \<or> \<not> is_space (hd s)" by auto
    from s have "dropWhile is_space s = s" by (cases s) auto
    with True c Cons.IH [OF ss] show ?thesis by simp
  next
    case False
    with Cons.IH [OF ss] show ?thesis by simp
  qed
qed

lemma single_spaced_append:
  "single_spaced (a @ b) \<Longrightarrow> single_spaced a \<and> single_spaced b"
proof (induction a)
  case Nil
  then show ?case by simp
next
  case (Cons c a)
  from Cons.prems have ss: "single_spaced (a @ b)"
    and h: "\<not> is_space c \<or> (c = CHR '' '' \<and> (a @ b = [] \<or> \<not> is_space (hd (a @ b))))"
    by (simp_all add: single_spaced_Cons)
  from Cons.IH [OF ss] have a: "single_spaced a" and b: "single_spaced b" by simp_all
  have "\<not> is_space c \<or> (c = CHR '' '' \<and> (a = [] \<or> \<not> is_space (hd a)))"
    using h by (cases a) auto
  with a b show ?case by (simp add: single_spaced_Cons)
qed

lemma strip_decompose: "\<exists>pre post. s = pre @ strip s @ post"
proof -
  let ?t = "dropWhile is_space s"
  have s: "s = takeWhile is_space s @ ?t" by simp
  have "?t = rev (rev ?t)" by simp
  also have "\<dots> = rev (takeWhile is_space (rev ?t) @ dropWhile is_space (rev ?t))"
    by (simp only: takeWhile_dropWhile_id)
  also have "\<dots> = rev (dropWhile is_space (rev ?t)) @ rev (takeWhile is_space (rev ?t))"
    by (rule rev_append)
  finally have t: "?t = strip s @ rev (takeWhile is_space (rev ?t))"
    unfolding strip_def .
  from s t have "s = takeWhile is_space s @ strip s @ rev (takeWhile is_space (rev ?t))"
    by simp
  then show ?thesis by blast
qed

lemma single_spaced_strip: "single_spaced s \<Longrightarrow> single_spaced (strip s)"
proof -
  assume a: "single_spaced s"
  from strip_decompose obtain pre post where s: "s = pre @ strip s @ post" by blast
  from a have "single_spaced (pre @ (strip s @ post))" using s by simp
  then have "single_spaced (strip s @ post)" using single_spaced_append by blast
  then show ?thesis using single_spaced_append by blast
qed


lemma lower_char_space [simp]: "lower_char (CHR '' '') = CHR '' ''"
  by (simp add: lower_char_def is_upper_def)

lemma is_space_blank [simp]: "is_space (CHR '' '')"
  by (simp add: is_space_def)

lemma normalized_chars:
  assumes "c \<in> set (strip (collapse_ws (blank_specials (fold sub_name_suffix sufs (lower name)))))"
  shows "lower_char c = c \<and> (is_word c \<or> is_space c)"
proof -
  let ?z = "fold sub_name_suffix sufs (lower name)"
  from assms have "c \<in> set (collapse_ws (blank_specials ?z))" using set_strip by blast
  from collapse_ws_mem [OF this]
  have "c = CHR '' '' \<or> (c \<in> set (blank_specials ?z) \<and> \<not> is_space c)" by blast
  then show ?thesis
  proof
    assume "c = CHR '' ''"
    then show ?thesis by simp
  next
    assume a: "c \<in> set (blank_specials ?z) \<and> \<not> is_space c"
    with blank_specials_mem [of c ?z] have z: "c \<in> set ?z" and w: "is_word c" by auto
    from z have "c \<in> set (lower name)" using fold_sub_name_suffix_set by blast
    then obtain d where "c = lower_char d" unfolding lower_def by auto
    then have "lower_char c = c" by simp
    with w show ?thesis by simp
  qed
qed

lemma normalize_with_fix:
  assumes fx: "fold sub_name_suffix sufs (normalize_with sufs x) = normalize_with sufs x"
  shows "normalize_with sufs (Some (normalize_with sufs x)) = normalize_with sufs x"
proof (cases "normalize_with sufs x = []")
  case True
  then show ?thesis by (simp add: normalize_with_def)
next
  case False
  let ?y = "normalize_with sufs x"
  from False obtain name where
    y: "?y = strip (collapse_ws (blank_specials (fold sub_name_suffix sufs (lower name))))"
    by (auto simp: normalize_with_def split: option.splits if_splits)
  have ch: "\<forall>c \<in> set ?y. lower_char c = c \<and> (is_word c \<or> is_space c)"
    unfolding y using normalized_chars by blast
  have lo: "lower ?y = ?y" unfolding lower_def using ch by (simp add: map_idI)
  have bl: "blank_specials ?y = ?y" unfolding blank_specials_def using ch by (simp add: map_idI)
  have "single_spaced ?y" unfolding y by (intro single_spaced_strip single_spaced_collapse)
  then have co: "collapse_ws ?y = ?y" by (rule single_spaced_fix)
  have st: "strip ?y = ?y" unfolding y by simp
  have "normalize_with sufs (Some ?y)
        = strip (collapse_ws (blank_specials (fold sub_name_suffix sufs (lower ?y))))"
    using False by (simp add: normalize_with_def)
  also have "\<dots> = ?y" by (simp only: lo fx bl co st)
  finally show ?thesis .
qed

lemma match_name_suffix_at_None_or_shorter:
  "sub_name_suffix p s = s \<or> length (sub_name_suffix p s) < length s"
proof (induction s)
  case Nil
  show ?case by simp
next
  case (Cons x xs)
  show ?case
  proof (cases "match_name_suffix_at p (x # xs)")
    case None
    with Cons show ?thesis by auto
  next
    case (Some r)
    with match_name_suffix_at_rest [OF Some] show ?thesis by simp
  qed
qed

lemma fold_sub_fix_or_shorter:
  "fold sub_name_suffix ps s = s \<or> length (fold sub_name_suffix ps s) < length s"
proof (induction ps arbitrary: s)
  case Nil
  show ?case by simp
next
  case (Cons p ps)
  from match_name_suffix_at_None_or_shorter [of p s] Cons [of "sub_name_suffix p s"]
  show ?case by auto
qed

lemma length_strip: "length (strip s) \<le> length s"
proof -
  have "length (strip s) \<le> length (rev (dropWhile is_space s))"
    unfolding strip_def using length_dropWhile_le [of is_space "rev (dropWhile is_space s)"]
    by simp
  also have "\<dots> \<le> length s" using length_dropWhile_le [of is_space s] by simp
  finally show ?thesis .
qed

lemma length_collapse_ws: "length (collapse_ws s) \<le> length s"
proof (induction s rule: collapse_ws.induct)
  case 1
  show ?case by simp
next
  case (2 c cs)
  show ?case
  proof (cases "is_space c")
    case True
    from "2.IH"(1) [OF True] length_dropWhile_le [of is_space cs] True show ?thesis by simp
  next
    case False
    from "2.IH"(2) [OF False] False show ?thesis by simp
  qed
qed

lemma normalize_with_fix_only_if:
  assumes "normalize_with sufs (Some (normalize_with sufs x)) = normalize_with sufs x"
  shows "fold sub_name_suffix sufs (normalize_with sufs x) = normalize_with sufs x"
proof (rule ccontr)
  let ?y = "normalize_with sufs x"
  assume n: "fold sub_name_suffix sufs ?y \<noteq> ?y"
  then have yne: "?y \<noteq> []" using fold_sub_name_suffix_set [of sufs ?y] by auto
  from yne obtain name where
    y: "?y = strip (collapse_ws (blank_specials (fold sub_name_suffix sufs (lower name))))"
    by (auto simp: normalize_with_def split: option.splits if_splits)
  have ch: "\<forall>c \<in> set ?y. lower_char c = c \<and> (is_word c \<or> is_space c)"
    unfolding y using normalized_chars by blast
  have lo: "lower ?y = ?y" unfolding lower_def using ch by (simp add: map_idI)
  from n fold_sub_fix_or_shorter [of sufs ?y]
  have sh: "length (fold sub_name_suffix sufs ?y) < length ?y" by blast
  have "normalize_with sufs (Some ?y)
        = strip (collapse_ws (blank_specials (fold sub_name_suffix sufs ?y)))"
    using yne lo by (simp add: normalize_with_def)
  then have "length (normalize_with sufs (Some ?y))
        \<le> length (blank_specials (fold sub_name_suffix sufs ?y))"
    using length_strip [of "collapse_ws (blank_specials (fold sub_name_suffix sufs ?y))"]
      length_collapse_ws [of "blank_specials (fold sub_name_suffix sufs ?y)"]
    by simp
  also have "\<dots> = length (fold sub_name_suffix sufs ?y)" by (simp add: blank_specials_def)
  also have "\<dots> < length ?y" by (rule sh)
  finally show False using assms by simp
qed

lemma ex_name_stable:
  "normalize_name (Some ''Ab Ltd. Inc'') = ''ab''"
  "normalize_name2 (Some ''Ab Ltd. Inc'') = ''ab''"
  "fold sub_name_suffix name_suffixes ''ab'' = ''ab''"
  "fold sub_name_suffix name_suffixes2 ''ab'' = ''ab''"
  by code_simp+

section \<open>Claims\<close>

text \<open>
  C1. Every outcome that the resolution engine emits for a company whose identifier has an
  entry in the table of known mappings has the method \<^verbatim>\<open>known_mapping\<close>, the status
  \<^verbatim>\<open>matched\<close>, the identifier and the name of the entry and its confidence, whatever the
  records, the scorer and the interruptions are. The first part is \<^verbatim>\<open>mapping_script.py\<close>, the
  second \<^verbatim>\<open>mapping_script2.py\<close>.
\<close>

theorem known_override_precedence:
  "(m \<in> set (fst (perform_matching intr scorer companies gss known_mappings w)) \<longrightarrow>
      known_mappings (m_company_id m) = Some k \<longrightarrow>
      match_method m = ''known_mapping'' \<and> match_status m = ''matched'' \<and>
      m_goldstock_id m = Some (k_goldstock_id k) \<and>
      goldstock_name m = Some (k_goldstock_name k) \<and>
      confidence_score m = k_confidence_score k)
   \<and> (perform_matching2 intr scorer companies gss known_mappings w = Inr (ms, w') \<longrightarrow>
      m \<in> set ms \<longrightarrow>
      known_mappings (m_company_id m) = Some k \<longrightarrow>
      match_method m = ''known_mapping'' \<and> match_status m = ''matched'' \<and>
      m_goldstock_id m = Some (k_goldstock_id k) \<and>
      goldstock_name m = Some (k_goldstock_name k) \<and>
      confidence_score m = k_confidence_score k)"
proof (rule conjI; intro impI)
  assume em: "m \<in> set (fst (perform_matching intr scorer companies gss known_mappings w))"
    and kn: "known_mappings (m_company_id m) = Some k"
  from perform_matching_emits [OF em] obtain c where
    m: "m = match_company scorer gss known_mappings c" by blast
  have "m_company_id m = company_id c" using m match_company_fields by simp
  with kn have "known_mappings (company_id c) = Some k" by simp
  then have "m = \<lparr>m_company_id = company_id c, m_company_name = company_name c,
                m_tsx_code = tsx_code c, m_goldstock_id = Some (k_goldstock_id k),
                goldstock_name = Some (k_goldstock_name k), match_status = ''matched'',
                confidence_score = k_confidence_score k, match_method = ''known_mapping''\<rparr>"
    unfolding m by (simp add: match_company_def known_tier_def)
  then show "match_method m = ''known_mapping'' \<and> match_status m = ''matched'' \<and>
      m_goldstock_id m = Some (k_goldstock_id k) \<and>
      goldstock_name m = Some (k_goldstock_name k) \<and>
      confidence_score m = k_confidence_score k"
    by simp
next
  assume run: "perform_matching2 intr scorer companies gss known_mappings w = Inr (ms, w')"
    and em: "m \<in> set ms"
    and kn: "known_mappings (m_company_id m) = Some k"
  from perform_matching2_emits [OF run em] obtain c where
    m: "match_company2 scorer gss known_mappings c = Inr m" by blast
  have "m_company_id m = company_id c" using match_company2_fields [OF m] by simp
  with kn have kc: "known_mappings (company_id c) = Some k" by simp
  from match_company2_known [of known_mappings c k scorer gss, OF kc] m
  show "match_method m = ''known_mapping'' \<and> match_status m = ''matched'' \<and>
      m_goldstock_id m = Some (k_goldstock_id k) \<and>
      goldstock_name m = Some (k_goldstock_name k) \<and>
      confidence_score m = k_confidence_score k"
    by auto
qed

theorem known_override_precedence_witness:
  "ex_known_outcome
     \<in> set (fst (perform_matching (\<lambda>n. False) ex_scorer [ex_known_company]
                   [ex_record] main_known_mappings ex_world))
   \<and> ex_known_outcome
     \<in> set (fst (projr (perform_matching2 (\<lambda>n. False) ex_scorer
                   [ex_known_company] [ex_record] main_known_mappings ex_world)))
   \<and> main_known_mappings (m_company_id ex_known_outcome)
     = Some \<lparr>k_goldstock_id = ''8'', k_goldstock_name = ''Agnico Eagle Mines Ltd'',
             k_confidence_score = 100\<rparr>
   \<and> match_method ex_known_outcome = ''known_mapping''
   \<and> match_status ex_known_outcome = ''matched''"
proof -
  let ?k = "\<lparr>k_goldstock_id = ''8'', k_goldstock_name = ''Agnico Eagle Mines Ltd'',
             k_confidence_score = 100\<rparr>"
  let ?run2 = "perform_matching2 (\<lambda>n. False) ex_scorer
                   [ex_known_company] [ex_record] main_known_mappings ex_world"
  have kc: "main_known_mappings (company_id ex_known_company) = Some ?k"
    by (simp add: main_known_mappings_def ex_known_company_def)
  have h1: "ex_known_outcome
     \<in> set (fst (perform_matching (\<lambda>n. False) ex_scorer [ex_known_company]
                   [ex_record] main_known_mappings ex_world))"
    using kc
    by (simp add: perform_matching_def known_tier_def ex_known_outcome_def ex_known_company_def)
  have h2: "main_known_mappings (m_company_id ex_known_outcome) = Some ?k"
    by (simp add: main_known_mappings_def ex_known_outcome_def)
  have h3: "?run2 = Inr (fst (projr ?run2), snd (projr ?run2))"
    using perform_matching2_total [of "\<lambda>n. False" ex_scorer "[ex_known_company]"
            "[ex_record]" main_known_mappings ex_world]
    by auto
  have h4: "ex_known_outcome \<in> set (fst (projr ?run2))"
    using match_company2_known [of main_known_mappings ex_known_company ?k ex_scorer
            "[ex_record]", OF kc]
    by (simp add: perform_matching2_def Let_def ex_known_outcome_def ex_known_company_def)
  note t = known_override_precedence [of ex_known_outcome "\<lambda>n. False" ex_scorer
      "[ex_known_company]" "[ex_record]" main_known_mappings ex_world ?k
      "fst (projr ?run2)" "snd (projr ?run2)"]
  from t h1 h2 have "match_method ex_known_outcome = ''known_mapping''" by blast
  moreover from t h3 h4 h2 have "match_status ex_known_outcome = ''matched''" by blast
  ultimately show ?thesis using h1 h2 h4 by simp
qed

text \<open>
  C2. With a table of known mappings whose confidences are positive, every mapping that either
  script emits satisfies: the status is \<^verbatim>\<open>unmatched\<close> exactly when the external identifier is
  \<^verbatim>\<open>None\<close>, exactly when the method is \<^verbatim>\<open>none\<close>, exactly when the confidence is 0; and a mapping
  that is not unmatched is matched or manual, has an identifier, a method other than
  \<^verbatim>\<open>none\<close> and a positive confidence.
\<close>

theorem outcome_invariant:
  assumes pos: "\<And>i k. known_mappings i = Some k \<Longrightarrow> 0 < k_confidence_score k"
    and em: "m \<in> set (fst (perform_matching intr scorer companies gss known_mappings w))
             \<or> (perform_matching2 intr scorer companies gss known_mappings w = Inr (ms, w')
                \<and> m \<in> set ms)"
  shows "((match_status m = ''unmatched'') = (m_goldstock_id m = None))
       \<and> ((m_goldstock_id m = None) = (match_method m = ''none''))
       \<and> ((match_method m = ''none'') = (confidence_score m = 0))
       \<and> (match_status m = ''unmatched'' \<or>
          ((match_status m = ''matched'' \<or> match_status m = ''manual'')
           \<and> m_goldstock_id m \<noteq> None \<and> match_method m \<noteq> ''none''
           \<and> 0 < confidence_score m))"
proof -
  have "(match_status m = ''unmatched'' \<and> m_goldstock_id m = None \<and> match_method m = ''none''
            \<and> confidence_score m = 0)
         \<or> ((match_status m = ''matched'' \<or> match_status m = ''manual'')
            \<and> m_goldstock_id m \<noteq> None \<and> match_method m \<noteq> ''none'' \<and> 0 < confidence_score m)"
    using em
  proof
    assume "m \<in> set (fst (perform_matching intr scorer companies gss known_mappings w))"
    from perform_matching_emits [OF this] obtain c where
      m: "m = match_company scorer gss known_mappings c" by blast
    show ?thesis unfolding m by (rule match_company_ok) (rule pos)
  next
    assume "perform_matching2 intr scorer companies gss known_mappings w = Inr (ms, w')
                \<and> m \<in> set ms"
    then obtain c where m: "match_company2 scorer gss known_mappings c = Inr m"
      using perform_matching2_emits by blast
    show ?thesis by (rule match_company2_ok [OF m]) (rule pos)
  qed
  then show ?thesis by auto
qed

theorem outcome_invariant_witness:
  "ex_known_outcome
     \<in> set (fst (perform_matching (\<lambda>n. False) ex_scorer [ex_known_company]
                   [ex_record] main_known_mappings ex_world))
   \<and> ex_known_outcome
     \<in> set (fst (projr (perform_matching2 (\<lambda>n. False) ex_scorer
                   [ex_known_company] [ex_record] main_known_mappings ex_world)))
   \<and> match_status ex_known_outcome \<noteq> ''unmatched''
   \<and> m_goldstock_id ex_known_outcome \<noteq> None
   \<and> match_method ex_known_outcome \<noteq> ''none''
   \<and> confidence_score ex_known_outcome \<noteq> 0"
proof -
  let ?k = "\<lparr>k_goldstock_id = ''8'', k_goldstock_name = ''Agnico Eagle Mines Ltd'',
             k_confidence_score = 100\<rparr>"
  let ?run2 = "perform_matching2 (\<lambda>n. False) ex_scorer
                   [ex_known_company] [ex_record] main_known_mappings ex_world"
  have kc: "main_known_mappings (company_id ex_known_company) = Some ?k"
    by (simp add: main_known_mappings_def ex_known_company_def)
  have h1: "ex_known_outcome
     \<in> set (fst (perform_matching (\<lambda>n. False) ex_scorer [ex_known_company]
                   [ex_record] main_known_mappings ex_world))"
    using kc
    by (simp add: perform_matching_def known_tier_def ex_known_outcome_def ex_known_company_def)
  have h3: "?run2 = Inr (fst (projr ?run2), snd (projr ?run2))"
    using perform_matching2_total [of "\<lambda>n. False" ex_scorer "[ex_known_company]"
            "[ex_record]" main_known_mappings ex_world]
    by auto
  have h4: "ex_known_outcome \<in> set (fst (projr ?run2))"
    using match_company2_known [of main_known_mappings ex_known_company ?k ex_scorer
            "[ex_record]", OF kc]
    by (simp add: perform_matching2_def Let_def ex_known_outcome_def ex_known_company_def)
  have st: "match_status ex_known_outcome \<noteq> ''unmatched''"
    by (simp add: ex_known_outcome_def)
  note t1 = outcome_invariant [where known_mappings = main_known_mappings
      and m = ex_known_outcome and intr = "\<lambda>n. False" and scorer = ex_scorer
      and companies = "[ex_known_company]" and gss = "[ex_record]" and w = ex_world
      and ms = "[]" and w' = ex_world]
  have c1: "((match_status ex_known_outcome = ''unmatched'') = (m_goldstock_id ex_known_outcome = None))
       \<and> ((m_goldstock_id ex_known_outcome = None) = (match_method ex_known_outcome = ''none''))
       \<and> ((match_method ex_known_outcome = ''none'') = (confidence_score ex_known_outcome = 0))
       \<and> (match_status ex_known_outcome = ''unmatched'' \<or>
          ((match_status ex_known_outcome = ''matched'' \<or> match_status ex_known_outcome = ''manual'')
           \<and> m_goldstock_id ex_known_outcome \<noteq> None \<and> match_method ex_known_outcome \<noteq> ''none''
           \<and> 0 < confidence_score ex_known_outcome))"
    by (rule t1) (erule main_known_positive, rule disjI1, rule h1)
  note t2 = outcome_invariant [where known_mappings = main_known_mappings
      and m = ex_known_outcome and intr = "\<lambda>n. False" and scorer = ex_scorer
      and companies = "[ex_known_company]" and gss = "[ex_record]" and w = ex_world
      and ms = "fst (projr ?run2)" and w' = "snd (projr ?run2)"]
  have c2: "((match_status ex_known_outcome = ''unmatched'') = (m_goldstock_id ex_known_outcome = None))
       \<and> ((m_goldstock_id ex_known_outcome = None) = (match_method ex_known_outcome = ''none''))
       \<and> ((match_method ex_known_outcome = ''none'') = (confidence_score ex_known_outcome = 0))
       \<and> (match_status ex_known_outcome = ''unmatched'' \<or>
          ((match_status ex_known_outcome = ''matched'' \<or> match_status ex_known_outcome = ''manual'')
           \<and> m_goldstock_id ex_known_outcome \<noteq> None \<and> match_method ex_known_outcome \<noteq> ''none''
           \<and> 0 < confidence_score ex_known_outcome))"
    by (rule t2) (erule main_known_positive, rule disjI2, rule conjI, rule h3, rule h4)
  from c1 st have a: "m_goldstock_id ex_known_outcome \<noteq> None \<and> match_method ex_known_outcome \<noteq> ''none''"
    by blast
  from c2 st have b: "confidence_score ex_known_outcome \<noteq> 0"
    by blast
  from a b st h1 h4 show ?thesis by simp
qed



text \<open>
  C10. The ticker \<^verbatim>\<open>"TSX:"\<close> is not empty and normalizes to the empty string, not to \<^verbatim>\<open>None\<close>.
  The table of tickers never has the empty string as a key, and a company whose normalized
  ticker is empty never gets an outcome of the exact-ticker tier, in either script.
\<close>

theorem empty_ticker_guarded:
  "normalize_ticker (Some ''TSX:'') = Some [] \<and> normalize_ticker2 (Some ''TSX:'') = Some []
   \<and> gs_by_ticker gss [] = None \<and> gs_by_ticker2 gss [] = None
   \<and> (m \<in> set (fst (perform_matching intr scorer companies gss known_mappings w)) \<longrightarrow>
        normalize_ticker (m_tsx_code m) = Some [] \<longrightarrow> match_method m \<noteq> ''exact_ticker'')
   \<and> (perform_matching2 intr scorer companies gss known_mappings w = Inr (ms, w') \<longrightarrow>
        m \<in> set ms \<longrightarrow>
        normalize_ticker2 (m_tsx_code m) = Some [] \<longrightarrow> match_method m \<noteq> ''exact_ticker'')"
proof -
  have t1: "normalize_ticker (Some ''TSX:'') = Some []" by code_simp
  have t2: "normalize_ticker2 (Some ''TSX:'') = Some []" by code_simp
  have i1: "gs_by_ticker gss [] = None"
    unfolding gs_by_ticker_def by (rule fold_add_ticker_no_empty) simp
  have i2: "gs_by_ticker2 gss [] = None"
    unfolding gs_by_ticker2_def by (rule fold_add_ticker_no_empty) simp
  have s1: "match_method m \<noteq> ''exact_ticker''"
    if em: "m \<in> set (fst (perform_matching intr scorer companies gss known_mappings w))"
      and nt: "normalize_ticker (m_tsx_code m) = Some []"
  proof -
    from perform_matching_emits [OF em] obtain c where
      m: "m = match_company scorer gss known_mappings c" by blast
    have "m_tsx_code m = tsx_code c" using m match_company_fields by simp
    with nt have tt: "ticker_tier (gs_by_ticker gss) c = None" by (simp add: ticker_tier_empty)
    show ?thesis
    proof (cases "known_tier known_mappings c")
      case (Some k)
      with known_tier_fields [OF Some] show ?thesis by (simp add: m match_company_def)
    next
      case None
      note k = None
      show ?thesis
      proof (cases "name_tier (gs_by_normalized_name gss) c")
        case (Some n)
        with k tt name_tier_fields [OF Some] show ?thesis by (simp add: m match_company_def)
      next
        case None
        with k tt have "m = fuzzy_tier scorer gss c" by (simp add: m match_company_def)
        with fuzzy_tier_shape [of scorer gss c] show ?thesis
          by (auto simp: unmatched_mapping_def)
      qed
    qed
  qed
  have s2: "match_method m \<noteq> ''exact_ticker''"
    if run: "perform_matching2 intr scorer companies gss known_mappings w = Inr (ms, w')"
      and em: "m \<in> set ms" and nt: "normalize_ticker2 (m_tsx_code m) = Some []"
  proof -
    from perform_matching2_emits [OF run em] obtain c where
      mc: "match_company2 scorer gss known_mappings c = Inr m" by blast
    have "m_tsx_code m = tsx_code c" using match_company2_fields [OF mc] by simp
    with nt have nt': "normalize_ticker2 (tsx_code c) = Some []" by simp
    let ?k = "known_step2 known_mappings c initial_vars"
    let ?v = "name_step2 (gs_by_normalized_name2 gss) c (ticker_step2 (gs_by_ticker2 gss) c ?k)"
    have v: "?v = name_step2 (gs_by_normalized_name2 gss) c ?k"
      by (simp add: ticker_step2_empty [OF nt'])
    have k: "v_match_method ?k \<noteq> ''exact_ticker''"
      by (cases "known_mappings (company_id c)") (simp_all add: known_step2_def initial_vars_def)
    have "v_match_method ?v \<noteq> ''exact_ticker''"
      unfolding v using k name_step2_cases [of "gs_by_normalized_name2 gss" c ?k] by auto
    moreover from mc obtain v' where f: "fuzzy_step2 scorer gss c ?v = Inr v'"
      and mm: "match_method m = v_match_method v'"
      by (auto simp: match_company2_def split: sum.splits)
    moreover have "v' = ?v \<or> v_match_method v' = ''fuzzy_name''"
      using f by (auto simp: fuzzy_step2_def Let_def split: if_splits option.splits)
    ultimately show ?thesis by auto
  qed
  from t1 t2 i1 i2 s1 s2 show ?thesis by blast
qed

theorem empty_ticker_guarded_witness:
  "ex_bare_outcome \<in> set (fst (perform_matching (\<lambda>n. False) ex_scorer [ex_bare_company]
      [ex_record] main_known_mappings ex_world))
   \<and> ex_bare_outcome2 \<in> set (fst (projr (perform_matching2 (\<lambda>n. False) ex_scorer
      [ex_bare_company] [ex_record] main_known_mappings ex_world)))
   \<and> normalize_ticker (m_tsx_code ex_bare_outcome) = Some []
   \<and> normalize_ticker2 (m_tsx_code ex_bare_outcome2) = Some []
   \<and> match_method ex_bare_outcome \<noteq> ''exact_ticker''
   \<and> match_method ex_bare_outcome2 \<noteq> ''exact_ticker''"
proof -
  let ?run2 = "perform_matching2 (\<lambda>n. False) ex_scorer [ex_bare_company] [ex_record]
      main_known_mappings ex_world"
  note t = empty_ticker_guarded [of "[ex_record]" ex_bare_outcome "\<lambda>n. False" ex_scorer
      "[ex_bare_company]" main_known_mappings ex_world "[]" ex_world]
  note t2 = empty_ticker_guarded [of "[ex_record]" ex_bare_outcome2 "\<lambda>n. False" ex_scorer
      "[ex_bare_company]" main_known_mappings ex_world "fst (projr ?run2)" "snd (projr ?run2)"]
  have h1: "ex_bare_outcome \<in> set (fst (perform_matching (\<lambda>n. False) ex_scorer
      [ex_bare_company] [ex_record] main_known_mappings ex_world))"
    by (simp add: ex_bare_run)
  have h2: "ex_bare_outcome2 \<in> set (fst (projr ?run2))"
    by (simp add: ex_bare_run2)
  have h3: "?run2 = Inr (fst (projr ?run2), snd (projr ?run2))"
    using perform_matching2_total [of "\<lambda>n. False" ex_scorer "[ex_bare_company]"
            "[ex_record]" main_known_mappings ex_world]
    by auto
  have n1: "normalize_ticker (m_tsx_code ex_bare_outcome) = Some []"
    using t by (simp add: ex_bare_outcome_def)
  have n2: "normalize_ticker2 (m_tsx_code ex_bare_outcome2) = Some []"
    using t by (simp add: ex_bare_outcome2_def)
  from t h1 n1 have a: "match_method ex_bare_outcome \<noteq> ''exact_ticker''" by blast
  from t2 h2 h3 n2 have b: "match_method ex_bare_outcome2 \<noteq> ''exact_ticker''" by blast
  from a b h1 h2 n1 n2 show ?thesis by simp
qed

text \<open>
  C7, as amended. In \<^verbatim>\<open>mapping_script2.py\<close> the aliases of a name hold the contents of every
  parenthetical segment, the name itself and, when it is not empty, the trimmed name without
  the segments. In \<^verbatim>\<open>mapping_script.py\<close> they hold the name and that trimmed remainder; the
  contents of the segments are not collected there.
\<close>

theorem alias_parenthetical_contents:
  "(seg \<in> set (findall_paren name) \<longrightarrow> seg \<in> set (extract_company_aliases2 name))
   \<and> name \<in> set (extract_company_aliases2 name)
   \<and> (CHR ''('' \<in> set name \<and> CHR '')'' \<in> set name \<and> strip (sub_paren name) \<noteq> [] \<longrightarrow>
        strip (sub_paren name) \<in> set (extract_company_aliases2 name))
   \<and> name \<in> set (extract_company_aliases name)
   \<and> (CHR ''('' \<in> set name \<and> CHR '')'' \<in> set name \<and> strip (sub_paren name) \<noteq> [] \<longrightarrow>
        strip (sub_paren name) \<in> set (extract_company_aliases name))"
proof -
  have a: "seg \<in> set (extract_company_aliases2 name)" if s: "seg \<in> set (findall_paren name)"
  proof -
    from s have "findall_paren name \<noteq> []" by auto
    from findall_paren_parens [OF this] s show ?thesis
      using aliases2_contains [of name] by (auto simp: paren_aliases2_def Let_def)
  qed
  have b: "name \<in> set (extract_company_aliases2 name)"
    using aliases2_contains [of name] by (auto simp: paren_aliases2_def Let_def split: if_splits)
  have c: "strip (sub_paren name) \<in> set (extract_company_aliases2 name)"
    if "CHR ''('' \<in> set name \<and> CHR '')'' \<in> set name \<and> strip (sub_paren name) \<noteq> []"
    using that aliases2_contains [of name] by (auto simp: paren_aliases2_def Let_def)
  have d: "name \<in> set (extract_company_aliases name)"
    using aliases_contains [of name] by (auto simp: paren_aliases_def Let_def split: if_splits)
  have e: "strip (sub_paren name) \<in> set (extract_company_aliases name)"
    if "CHR ''('' \<in> set name \<and> CHR '')'' \<in> set name \<and> strip (sub_paren name) \<noteq> []"
    using that aliases_contains [of name] by (auto simp: paren_aliases_def Let_def)
  from a b c d e show ?thesis by blast
qed

theorem alias_parenthetical_contents_witness:
  "''Bar'' \<in> set (findall_paren ''Foo (Bar)'')
   \<and> ''Bar'' \<in> set (extract_company_aliases2 ''Foo (Bar)'')
   \<and> CHR ''('' \<in> set ''Foo (Bar)'' \<and> CHR '')'' \<in> set ''Foo (Bar)''
   \<and> strip (sub_paren ''Foo (Bar)'') = ''Foo''
   \<and> ''Foo'' \<in> set (extract_company_aliases2 ''Foo (Bar)'')
   \<and> ''Foo'' \<in> set (extract_company_aliases ''Foo (Bar)'')"
proof -
  note t = alias_parenthetical_contents [of "''Bar''" "''Foo (Bar)''"]
  have h1: "''Bar'' \<in> set (findall_paren ''Foo (Bar)'')" by code_simp
  have h2: "strip (sub_paren ''Foo (Bar)'') = ''Foo''" by code_simp
  have h3: "CHR ''('' \<in> set ''Foo (Bar)'' \<and> CHR '')'' \<in> set ''Foo (Bar)''" by simp
  from t h1 have a: "''Bar'' \<in> set (extract_company_aliases2 ''Foo (Bar)'')" by blast
  from t h2 h3 have b: "''Foo'' \<in> set (extract_company_aliases2 ''Foo (Bar)'')
      \<and> ''Foo'' \<in> set (extract_company_aliases ''Foo (Bar)'')" by simp
  from a b h1 h2 h3 show ?thesis by simp
qed

theorem alias_parenthetical_contents_counterexample:
  "findall_paren ''Foo (Bar)'' = [''Bar'']
   \<and> ''Bar'' \<notin> set (extract_company_aliases ''Foo (Bar)'')
   \<and> extract_company_aliases ''Foo (Bar)'' = [''Foo (Bar)'', ''Foo'', ''F('']
   \<and> findall_paren ''(Bar)'' = [''Bar'']
   \<and> strip (sub_paren ''(Bar)'') = []
   \<and> [] \<notin> set (extract_company_aliases2 ''(Bar)'')"
  by code_simp

text \<open>
  C8. The claim is that loading never fails and always gives a dictionary, the empty one for
  a file that is absent or cannot be parsed, and an empty checkpoint likewise. The loaders
  break it for a file that parses to something else: for the text \<^verbatim>\<open>[]\<close> both return the
  list, which is neither a dictionary nor the empty checkpoint, and the first use of the
  checkpoint in a resumed run raises \<^verbatim>\<open>TypeError\<close>. An absent or unparseable checkpoint
  passes the same test (\<open>load_absent_or_corrupt\<close>).
\<close>

theorem load_keeps_wrong_shape:
  "load_cache (Stored (JArr [])) = JArr []
   \<and> \<not> is_dict (load_cache (Stored (JArr [])))
   \<and> load_checkpoint (Stored (JArr [])) = JArr []
   \<and> \<not> is_dict (load_checkpoint (Stored (JArr [])))
   \<and> resume_guard True (load_checkpoint (Stored (JArr []))) = Inl TypeError
   \<and> resume_guard True (load_checkpoint Corrupt) = Inr False
   \<and> resume_guard True (load_checkpoint Absent) = Inr False"
  by (simp add: load_cache_def load_checkpoint_def load_json_def is_dict_def resume_guard_def
        subscript_def json_truthy_def empty_checkpoint_def)

text \<open>
  C6. The claim is that a null entry of the cache made in one run is on disk when the run
  completes, so the next run does not request that identifier again. \<^verbatim>\<open>main\<close> of
  \<^verbatim>\<open>mapping_script.py\<close> breaks it on the example: the first run completes, identifier 2
  answered 404 and its null entry is in the cache in memory, but no cache file was written,
  and the second run requests identifiers 1 and 2 again. (\<open>ex_second_run2\<close>: the second run
  of \<^verbatim>\<open>mapping_script2.py\<close> makes no request.)
\<close>

theorem cache_null_not_persisted:
  "main ex_scorer ex_net ex_args (Stored [ex_known_company]) ex_files = (Completed, ex_after_run)
   \<and> ex_net 2 = NotFound
   \<and> map_of (cache ex_after_run) ''goldstock_2'' = Some None
   \<and> cache_file ex_after_run = Absent
   \<and> requests (snd (main ex_scorer ex_net ex_args (Stored [ex_known_company])
        (files_of ex_after_run))) = [1, 2]"
  using ex_first_run ex_second_run by (simp add: ex_after_run_def ex_net_def)

text \<open>
  C9. The claim is that a resumed run whose checkpoint covers every company writes the
  checkpoint's mappings unchanged. \<^verbatim>\<open>main\<close> of \<^verbatim>\<open>mapping_script.py\<close> breaks it on the example:
  the work list is empty, but the last save of \<^verbatim>\<open>perform_matching\<close> empties
  \<^verbatim>\<open>matcher.checkpoint\<close> before the merge, the table that is written is empty and the summary
  raises. \<^verbatim>\<open>mapping_script2.py\<close> writes the checkpoint's mapping on the same input
  (\<open>main2_resume_complete\<close> for every input).
\<close>

theorem resume_output_lost:
  "filter (\<lambda>c. company_id c \<notin> set (processed_ids \<lparr>processed_ids = [10],
       mappings = [ex_known_outcome]\<rparr>)) [ex_known_company] = []
   \<and> fst (main ex_scorer ex_net ex_resume_args (Stored [ex_known_company]) ex_resume_files)
       = Raised ZeroDivisionError
   \<and> output_file (snd (main ex_scorer ex_net ex_resume_args (Stored [ex_known_company])
       ex_resume_files)) = Some []
   \<and> output_file (snd (main2 ex_scorer ex_net ex_resume_args (Stored [ex_known_company])
       ex_resume_files)) = Some [ex_known_outcome]"
  using ex_resume_run ex_resume_run2 by (simp add: ex_known_company_def)

text \<open>
  C4, as amended. Normalising a ticker twice gives the same as normalising it once whenever
  the first result is \<^verbatim>\<open>None\<close>, or is not empty and no longer starts with an exchange prefix
  (and, in \<^verbatim>\<open>mapping_script.py\<close>, holds none of the characters \<^verbatim>\<open>.\<close>, \<^verbatim>\<open>-\<close>, \<^verbatim>\<open>_\<close>, which only
  its \<^verbatim>\<open>.CN\<close> shortcut can leave). Each pattern is applied once per call, so a second prefix,
  or a suffix under \<^verbatim>\<open>.CN\<close>, survives the first call, and an empty result becomes \<^verbatim>\<open>None\<close>
  in the second.
\<close>

theorem normalize_ticker_idempotent_when_clean:
  "(normalize_ticker x = None \<longrightarrow> normalize_ticker (normalize_ticker x) = normalize_ticker x)
   \<and> (normalize_ticker x = Some y \<longrightarrow> y \<noteq> [] \<longrightarrow> sub_prefix ticker_prefixes y = y \<longrightarrow>
        remove_punct y = y \<longrightarrow>
        normalize_ticker (normalize_ticker x) = normalize_ticker x)
   \<and> (normalize_ticker2 x = None \<longrightarrow> normalize_ticker2 (normalize_ticker2 x) = normalize_ticker2 x)
   \<and> (normalize_ticker2 x = Some y \<longrightarrow> y \<noteq> [] \<longrightarrow> sub_prefix ticker_prefixes2 y = y \<longrightarrow>
        normalize_ticker2 (normalize_ticker2 x) = normalize_ticker2 x)"
proof -
  have a: "normalize_ticker (normalize_ticker x) = normalize_ticker x"
    if "normalize_ticker x = None"
    using that by (simp add: normalize_ticker_def)
  have b: "normalize_ticker2 (normalize_ticker2 x) = normalize_ticker2 x"
    if "normalize_ticker2 x = None"
    using that by (simp add: normalize_ticker2_def)
  have c: "normalize_ticker (normalize_ticker x) = normalize_ticker x"
    if r: "normalize_ticker x = Some y" and ne: "y \<noteq> []"
      and pre: "sub_prefix ticker_prefixes y = y" and punct: "remove_punct y = y"
  proof -
    from r obtain t where "y = upper (strip t)"
      by (auto simp: normalize_ticker_def split: option.splits if_splits)
    from normalize_ticker_fix(1) [OF this ne punct pre] r show ?thesis by simp
  qed
  have d: "normalize_ticker2 (normalize_ticker2 x) = normalize_ticker2 x"
    if r: "normalize_ticker2 x = Some y" and ne: "y \<noteq> []"
      and pre: "sub_prefix ticker_prefixes2 y = y"
  proof -
    from r obtain s where y: "y = upper (strip (remove_punct s))"
      by (auto simp: normalize_ticker2_def split: option.splits if_splits)
    have punct: "remove_punct y = y" unfolding y by (rule remove_punct_upper_strip)
    from normalize_ticker_fix(2) [OF y ne punct pre] r show ?thesis by simp
  qed
  from a b c d show ?thesis by blast
qed

theorem normalize_ticker_idempotent_when_clean_witness:
  "normalize_ticker (Some ''cve:ab.v'') = Some ''AB''
   \<and> normalize_ticker2 (Some ''cve:ab.v'') = Some ''AB''
   \<and> ''AB'' \<noteq> []
   \<and> sub_prefix ticker_prefixes ''AB'' = ''AB'' \<and> sub_prefix ticker_prefixes2 ''AB'' = ''AB''
   \<and> remove_punct ''AB'' = ''AB''
   \<and> normalize_ticker (normalize_ticker (Some ''cve:ab.v'')) = Some ''AB''
   \<and> normalize_ticker2 (normalize_ticker2 (Some ''cve:ab.v'')) = Some ''AB''"
proof -
  note t = normalize_ticker_idempotent_when_clean [of "Some ''cve:ab.v''" "''AB''"]
  have h1: "normalize_ticker (Some ''cve:ab.v'') = Some ''AB''" by code_simp
  have h2: "normalize_ticker2 (Some ''cve:ab.v'') = Some ''AB''" by code_simp
  have h3: "sub_prefix ticker_prefixes ''AB'' = ''AB''" by code_simp
  have h4: "sub_prefix ticker_prefixes2 ''AB'' = ''AB''" by code_simp
  have h5: "remove_punct ''AB'' = ''AB''" by (simp add: remove_punct_def)
  have h6: "''AB'' \<noteq> []" by simp
  from t h1 h3 h5 h6
  have a: "normalize_ticker (normalize_ticker (Some ''cve:ab.v'')) = normalize_ticker (Some ''cve:ab.v'')"
    by blast
  from t h2 h4 h6
  have b: "normalize_ticker2 (normalize_ticker2 (Some ''cve:ab.v'')) = normalize_ticker2 (Some ''cve:ab.v'')"
    by blast
  from a b h1 h2 h3 h4 h5 show ?thesis by simp
qed

theorem normalize_ticker_idempotent_counterexample:
  "normalize_ticker (normalize_ticker (Some ''TSX:TSX:AB'')) \<noteq> normalize_ticker (Some ''TSX:TSX:AB'')
   \<and> normalize_ticker2 (normalize_ticker2 (Some ''TSX:TSX:AB'')) \<noteq> normalize_ticker2 (Some ''TSX:TSX:AB'')
   \<and> normalize_ticker (Some ''TSX:TSX:AB'') = Some ''TSX:AB''
   \<and> normalize_ticker (Some ''TSX:AB'') = Some ''AB''
   \<and> normalize_ticker (normalize_ticker (Some ''TSX:'')) \<noteq> normalize_ticker (Some ''TSX:'')
   \<and> normalize_ticker2 (normalize_ticker2 (Some ''TSX:'')) \<noteq> normalize_ticker2 (Some ''TSX:'')
   \<and> normalize_ticker (normalize_ticker (Some ''AB.V.CN'')) \<noteq> normalize_ticker (Some ''AB.V.CN'')"
  by code_simp

text \<open>
  C5, as amended. \<^verbatim>\<open>normalize_name\<close> returns the empty string, never \<^verbatim>\<open>None\<close>, for \<^verbatim>\<open>None\<close> and
  for the empty string. Normalising its own result again gives the same string exactly when
  the single pass over the suffix list leaves that result as it is; a result that still ends
  in a listed suffix loses it in the second call.
\<close>

theorem normalize_name_idempotent_when_stable:
  "normalize_name None = [] \<and> normalize_name (Some []) = []
   \<and> normalize_name2 None = [] \<and> normalize_name2 (Some []) = []
   \<and> ((normalize_name (Some (normalize_name x)) = normalize_name x)
        = (fold sub_name_suffix name_suffixes (normalize_name x) = normalize_name x))
   \<and> ((normalize_name2 (Some (normalize_name2 x)) = normalize_name2 x)
        = (fold sub_name_suffix name_suffixes2 (normalize_name2 x) = normalize_name2 x))"
  unfolding normalize_name_def normalize_name2_def
  using normalize_with_fix [of name_suffixes x] normalize_with_fix_only_if [of name_suffixes x]
    normalize_with_fix [of name_suffixes2 x] normalize_with_fix_only_if [of name_suffixes2 x]
  by (auto simp: normalize_with_def)

theorem normalize_name_idempotent_when_stable_witness:
  "normalize_name (Some ''Ab Ltd. Inc'') = ''ab''
   \<and> fold sub_name_suffix name_suffixes (normalize_name (Some ''Ab Ltd. Inc''))
       = normalize_name (Some ''Ab Ltd. Inc'')
   \<and> normalize_name (Some (normalize_name (Some ''Ab Ltd. Inc''))) = ''ab''
   \<and> normalize_name2 (Some ''Ab Ltd. Inc'') = ''ab''
   \<and> fold sub_name_suffix name_suffixes2 (normalize_name2 (Some ''Ab Ltd. Inc''))
       = normalize_name2 (Some ''Ab Ltd. Inc'')
   \<and> normalize_name2 (Some (normalize_name2 (Some ''Ab Ltd. Inc''))) = ''ab''"
proof -
  note t = normalize_name_idempotent_when_stable [of "Some ''Ab Ltd. Inc''"]
  have h1: "fold sub_name_suffix name_suffixes (normalize_name (Some ''Ab Ltd. Inc''))
       = normalize_name (Some ''Ab Ltd. Inc'')"
    by (simp only: ex_name_stable)
  have h2: "fold sub_name_suffix name_suffixes2 (normalize_name2 (Some ''Ab Ltd. Inc''))
       = normalize_name2 (Some ''Ab Ltd. Inc'')"
    by (simp only: ex_name_stable)
  from t h1 have a: "normalize_name (Some (normalize_name (Some ''Ab Ltd. Inc'')))
       = normalize_name (Some ''Ab Ltd. Inc'')" by blast
  from t h2 have b: "normalize_name2 (Some (normalize_name2 (Some ''Ab Ltd. Inc'')))
       = normalize_name2 (Some ''Ab Ltd. Inc'')" by blast
  from a b h1 h2 show ?thesis by (simp only: ex_name_stable simp_thms)
qed

theorem normalize_name_idempotent_counterexample:
  "normalize_name (Some ''a inc ltd'') = ''a inc''
   \<and> normalize_name (Some (normalize_name (Some ''a inc ltd''))) = ''a''
   \<and> normalize_name (Some (normalize_name (Some ''a inc ltd''))) \<noteq> normalize_name (Some ''a inc ltd'')
   \<and> normalize_name2 (Some (normalize_name2 (Some ''a inc ltd''))) \<noteq> normalize_name2 (Some ''a inc ltd'')"
  by code_simp

end
